theory Spec2Isabelle
  imports Main "HOL-Library.Word"
begin

unbundle bit_operations_syntax

section \<open>Geometry\<close>

text \<open>
  Coordinates are Go \<open>int\<close>s. They are modelled as unbounded integers: the
  compositor only adds and subtracts offsets of buffers that exist in memory, far from
  the 64-bit limits.
\<close>

record Point =
  X :: int
  Y :: int

record Rectangle =
  Min_r :: Point
  Max_r :: Point

definition Pt :: "int \<Rightarrow> int \<Rightarrow> Point" where
  "Pt x y = \<lparr> X = x, Y = y \<rparr>"

definition Rect_of :: "int \<Rightarrow> int \<Rightarrow> int \<Rightarrow> int \<Rightarrow> Rectangle" where
  "Rect_of x0 y0 x1 y1 = \<lparr> Min_r = Pt x0 y0, Max_r = Pt x1 y1 \<rparr>"

text \<open>Modelled from the spec: the zero point \<open>image.ZP\<close> and the zero rectangle
  \<open>image.ZR\<close> of the image package, which is not part of the sources at hand.\<close>

definition ZP :: Point where
  "ZP = Pt 0 0"

definition ZR :: Rectangle where
  "ZR = Rect_of 0 0 0 0"

text \<open>Modelled from the spec: \<open>Point.Sub\<close>, the difference of two points
  (a translation vector).\<close>

definition Sub_p :: "Point \<Rightarrow> Point \<Rightarrow> Point" where
  "Sub_p p q = Pt (X p - X q) (Y p - Y q)"

text \<open>Modelled from the spec: \<open>Rectangle.Add\<close>, the rectangle translated by a point.\<close>

definition Add_r :: "Rectangle \<Rightarrow> Point \<Rightarrow> Rectangle" where
  "Add_r r p = Rect_of (X (Min_r r) + X p) (Y (Min_r r) + Y p)
                       (X (Max_r r) + X p) (Y (Max_r r) + Y p)"

text \<open>Modelled from the spec: \<open>Rectangle.Empty\<close>; a rectangle is empty iff
  \<open>Min.X \<ge> Max.X\<close> or \<open>Min.Y \<ge> Max.Y\<close>.\<close>

definition Empty_r :: "Rectangle \<Rightarrow> bool" where
  "Empty_r r \<longleftrightarrow> X (Min_r r) \<ge> X (Max_r r) \<or> Y (Min_r r) \<ge> Y (Max_r r)"

text \<open>Modelled from the spec: \<open>Rectangle.Intersect\<close>, the largest rectangle contained in
  both arguments; when the two do not overlap the zero rectangle is returned.\<close>

definition Intersect :: "Rectangle \<Rightarrow> Rectangle \<Rightarrow> Rectangle" where
  "Intersect r s =
     (let x0 = (if X (Min_r r) < X (Min_r s) then X (Min_r s) else X (Min_r r));
          y0 = (if Y (Min_r r) < Y (Min_r s) then Y (Min_r s) else Y (Min_r r));
          x1 = (if X (Max_r r) > X (Max_r s) then X (Max_r s) else X (Max_r r));
          y1 = (if Y (Max_r r) > Y (Max_r s) then Y (Max_r s) else Y (Max_r r))
      in if x0 > x1 \<or> y0 > y1 then ZR else Rect_of x0 y0 x1 y1)"

text \<open>Modelled from the spec: \<open>Rectangle.Overlaps\<close>, whether two rectangles share a
  pixel.\<close>

definition Overlaps :: "Rectangle \<Rightarrow> Rectangle \<Rightarrow> bool" where
  "Overlaps r s \<longleftrightarrow>
     X (Min_r r) < X (Max_r s) \<and> X (Min_r s) < X (Max_r r) \<and>
     Y (Min_r r) < Y (Max_r s) \<and> Y (Min_r s) < Y (Max_r r)"

text \<open>Modelled from the spec: \<open>Rectangle.Contains\<close>; \<open>Min\<close> is inclusive and
  \<open>Max\<close> exclusive.\<close>

definition Contains :: "Rectangle \<Rightarrow> Point \<Rightarrow> bool" where
  "Contains r p \<longleftrightarrow>
     X (Min_r r) \<le> X p \<and> X p < X (Max_r r) \<and> Y (Min_r r) \<le> Y p \<and> Y p < Y (Max_r r)"

section \<open>Clipping\<close>

text \<open>
  \<open>clip\<close> receives the bounds of the three images; \<open>mb\<close> is \<open>None\<close> for a nil mask.
  It returns the clipped rectangle and the shifted points \<open>sp\<close> and \<open>mp\<close>.
\<close>

definition clip ::
  "Rectangle \<Rightarrow> Rectangle \<Rightarrow> Rectangle \<Rightarrow> Point \<Rightarrow> Rectangle option \<Rightarrow> Point
     \<Rightarrow> Rectangle \<times> Point \<times> Point" where
  "clip db r sb sp mb mp =
     (let orig = Min_r r;
          r1 = Intersect r db;
          r2 = Intersect r1 (Add_r sb (Sub_p orig sp));
          r3 = (case mb of None \<Rightarrow> r2
                | Some b \<Rightarrow> Intersect r2 (Add_r b (Sub_p orig mp)));
          dx = X (Min_r r3) - X orig;
          dy = Y (Min_r r3) - Y orig
      in if dx = 0 \<and> dy = 0 then (r3, sp, mp)
         else (r3, Pt (X sp + dx) (Y sp + dy), Pt (X mp + dx) (Y mp + dy)))"

section \<open>Widening of 8-bit channels\<close>

type_synonym u8 = "8 word"
type_synonym u16 = "16 word"
type_synonym u32 = "32 word"

text \<open>\<open>m\<close> is the maximum colour value returned by \<open>Color.RGBA\<close>.\<close>

definition m :: u32 where
  "m = 2 ^ 16 - 1"

text \<open>The conversion of a non-premultiplied 8-bit pixel in \<open>drawNRGBAOver\<close> and
  \<open>drawNRGBASrc\<close>: \<open>sa := uint32(A); sr := uint32(R) * 0x101 * sa / 0xff; ...;
  sa *= 0x101\<close>.\<close>

definition nrgba_premul :: "u8 \<times> u8 \<times> u8 \<times> u8 \<Rightarrow> u32 \<times> u32 \<times> u32 \<times> u32" where
  "nrgba_premul c =
     (case c of (r8, g8, b8, a8) \<Rightarrow>
        let sa = (ucast a8 :: u32);
            sr = (ucast r8 :: u32) * 0x101 * sa div 0xff;
            sg = (ucast g8 :: u32) * 0x101 * sa div 0xff;
            sb = (ucast b8 :: u32) * 0x101 * sa div 0xff
        in (sr, sg, sb, sa * 0x101))"

text \<open>Modelled from the spec: \<open>NRGBAColor.RGBA\<close> of the image package, the colour
  conversion the generic compositor reaches through \<open>src.At(sx, sy).RGBA()\<close>: each
  channel is widened to 16 bits (\<open>r |= r << 8\<close>), multiplied by the alpha and divided by
  255; the alpha itself is widened the same way.\<close>

definition NRGBAColor_RGBA :: "u8 \<times> u8 \<times> u8 \<times> u8 \<Rightarrow> u32 \<times> u32 \<times> u32 \<times> u32" where
  "NRGBAColor_RGBA c =
     (case c of (r8, g8, b8, a8) \<Rightarrow>
        let r0 = (ucast r8 :: u32); r1 = r0 OR push_bit 8 r0;
            g0 = (ucast g8 :: u32); g1 = g0 OR push_bit 8 g0;
            b0 = (ucast b8 :: u32); b1 = b0 OR push_bit 8 b0;
            a0 = (ucast a8 :: u32); a1 = a0 OR push_bit 8 a0
        in (r1 * a0 div 0xff, g1 * a0 div 0xff, b1 * a0 div 0xff, a1))"

section \<open>Colours\<close>

type_synonym rgba8 = "u8 \<times> u8 \<times> u8 \<times> u8"
type_synonym rgba16 = "u16 \<times> u16 \<times> u16 \<times> u16"
type_synonym rgba32 = "u32 \<times> u32 \<times> u32 \<times> u32"

text \<open>The colour types of the image package that the compositor meets. A pixel of an
  \<open>image.RGBA\<close> is an \<open>RGBAColor\<close> (premultiplied, 8 bits), of an \<open>image.NRGBA\<close> an
  \<open>NRGBAColor\<close> (not premultiplied), of an \<open>image.Alpha\<close> an \<open>AlphaColor\<close>, of an
  \<open>image.RGBA64\<close> an \<open>RGBA64Color\<close> and of a \<open>ycbcr.YCbCr\<close> a \<open>YCbCrColor\<close>.\<close>

datatype Color =
    RGBAColor rgba8
  | RGBA64Color rgba16
  | NRGBAColor rgba8
  | AlphaColor u8
  | YCbCrColor u8 u8 u8

text \<open>\<open>ycbcr.YCbCrToRGB\<close> is not part of the sources at hand; every definition that
  needs it takes it as the parameter \<open>conv\<close>.\<close>

type_synonym YCbCrToRGB = "u8 \<Rightarrow> u8 \<Rightarrow> u8 \<Rightarrow> u8 \<times> u8 \<times> u8"

text \<open>\<open>r |= r << 8\<close> on a \<open>uint32\<close> holding an 8-bit value.\<close>

definition widen8 :: "u8 \<Rightarrow> u32" where
  "widen8 v = (let r = (ucast v :: u32) in r OR push_bit 8 r)"

text \<open>Modelled from the spec: the method \<open>Color.RGBA\<close> of the image package, which
  returns the premultiplied channels in the range \<open>[0, 65535]\<close>.\<close>

fun RGBA_of :: "YCbCrToRGB \<Rightarrow> Color \<Rightarrow> rgba32" where
  "RGBA_of conv (RGBAColor (r, g, b, a)) = (widen8 r, widen8 g, widen8 b, widen8 a)"
| "RGBA_of conv (RGBA64Color (r, g, b, a)) = (ucast r, ucast g, ucast b, ucast a)"
| "RGBA_of conv (NRGBAColor c) = NRGBAColor_RGBA c"
| "RGBA_of conv (AlphaColor a) = (widen8 a, widen8 a, widen8 a, widen8 a)"
| "RGBA_of conv (YCbCrColor y cb cr) =
     (case conv y cb cr of (r, g, b) \<Rightarrow> (widen8 r, widen8 g, widen8 b, 0xffff))"

text \<open>\<open>image.RGBAColor{uint8(dr >> 8), uint8(dg >> 8), uint8(db >> 8), uint8(da >> 8)}\<close>.\<close>

definition pack8 :: "rgba32 \<Rightarrow> rgba8" where
  "pack8 c = (case c of (dr, dg, db, da) \<Rightarrow>
     (ucast (drop_bit 8 dr), ucast (drop_bit 8 dg), ucast (drop_bit 8 db), ucast (drop_bit 8 da)))"

text \<open>Modelled from the spec: \<open>toRGBAColor\<close> and \<open>toRGBA64Color\<close>, the colour models
  through which \<open>Set\<close> of an \<open>image.RGBA\<close> and of an \<open>image.RGBA64\<close> store a colour.\<close>

definition toRGBAColor :: "YCbCrToRGB \<Rightarrow> Color \<Rightarrow> rgba8" where
  "toRGBAColor conv c = (case c of RGBAColor p \<Rightarrow> p | _ \<Rightarrow> pack8 (RGBA_of conv c))"

definition toRGBA64Color :: "YCbCrToRGB \<Rightarrow> Color \<Rightarrow> rgba16" where
  "toRGBA64Color conv c =
     (case c of RGBA64Color p \<Rightarrow> p
      | _ \<Rightarrow> (case RGBA_of conv c of (r, g, b, a) \<Rightarrow> (ucast r, ucast g, ucast b, ucast a)))"

text \<open>\<open>var zeroColor image.Color = image.AlphaColor{0}\<close>.\<close>

definition zeroColor :: Color where
  "zeroColor = AlphaColor 0"

datatype Op = Over | Src

section \<open>Buffers\<close>

text \<open>A run-time panic (an index or a slice bound out of range) and a loop that never
  reaches its bound are results of their own.\<close>

datatype error = IndexOutOfRange | NoReturn

definition bind_e :: "error + 'a \<Rightarrow> ('a \<Rightarrow> error + 'b) \<Rightarrow> error + 'b" where
  "bind_e v f = (case v of Inl e \<Rightarrow> Inl e | Inr a \<Rightarrow> f a)"

text \<open>\<open>xs[i]\<close> and \<open>xs[i] = v\<close> on a Go slice.\<close>

definition idx :: "'a list \<Rightarrow> int \<Rightarrow> error + 'a" where
  "idx xs i = (if 0 \<le> i \<and> i < int (length xs) then Inr (xs ! nat i) else Inl IndexOutOfRange)"

definition upd :: "'a list \<Rightarrow> int \<Rightarrow> 'a \<Rightarrow> error + 'a list" where
  "upd xs i v =
     (if 0 \<le> i \<and> i < int (length xs) then Inr (xs[nat i := v]) else Inl IndexOutOfRange)"

text \<open>The slice expression \<open>xs[lo:hi]\<close> is legal when \<open>0 \<le> lo \<le> hi \<le> cap(xs)\<close>; the
  buffers are taken to have no spare capacity. A slice shares the array: element \<open>i\<close> of
  \<open>xs[lo:hi]\<close> is element \<open>lo + i\<close> of \<open>xs\<close>, and exists for \<open>0 \<le> i < hi - lo\<close>.\<close>

definition slice_ok :: "'a list \<Rightarrow> int \<Rightarrow> int \<Rightarrow> bool" where
  "slice_ok xs lo hi \<longleftrightarrow> 0 \<le> lo \<and> lo \<le> hi \<and> hi \<le> int (length xs)"

definition idx_s :: "'a list \<Rightarrow> int \<Rightarrow> int \<Rightarrow> int \<Rightarrow> error + 'a" where
  "idx_s xs lo hi i =
     (if 0 \<le> i \<and> i < hi - lo then Inr (xs ! nat (lo + i)) else Inl IndexOutOfRange)"

definition upd_s :: "'a list \<Rightarrow> int \<Rightarrow> int \<Rightarrow> int \<Rightarrow> 'a \<Rightarrow> error + 'a list" where
  "upd_s xs lo hi i v =
     (if 0 \<le> i \<and> i < hi - lo then Inr (xs[nat (lo + i) := v]) else Inl IndexOutOfRange)"

text \<open>The images with a pixel array: \<open>Pix\<close>, \<open>Stride\<close> and \<open>Rect\<close>; the pixel at
  \<open>(x, y)\<close> is \<open>Pix[y*Stride+x]\<close>.\<close>

record 'c PixImage =
  Pix :: "'c list"
  Stride :: int
  Rect :: Rectangle

text \<open>\<open>ycbcr.YCbCr\<close>: three planes, their strides, the subsampling ratio and the
  bounds.\<close>

record YCbCr =
  Y_plane :: "u8 list"
  Cb_plane :: "u8 list"
  Cr_plane :: "u8 list"
  YStride :: int
  CStride :: int
  SubsampleRatio :: int
  Rect_y :: Rectangle

definition SubsampleRatio444 :: int where "SubsampleRatio444 = 0"
definition SubsampleRatio422 :: int where "SubsampleRatio422 = 1"
definition SubsampleRatio420 :: int where "SubsampleRatio420 = 2"

text \<open>An \<open>image.Image\<close> (a source or a mask) and a \<open>draw.Image\<close> (a destination, which
  also has \<open>Set\<close>).\<close>

datatype Image =
    ColorImage Color
  | RGBA "rgba8 PixImage"
  | NRGBA "rgba8 PixImage"
  | Alpha "u8 PixImage"
  | RGBA64 "rgba16 PixImage"
  | YCbCrImage YCbCr

datatype draw_Image =
    DstRGBA "rgba8 PixImage"
  | DstRGBA64 "rgba16 PixImage"

text \<open>The source is an interface value that may be the destination itself
  (\<open>image.Image(dst) == src\<close>): \<open>Same\<close>, or another image.\<close>

datatype 'a aliased = Same | Other 'a

fun as_Image :: "draw_Image \<Rightarrow> Image" where
  "as_Image (DstRGBA p) = RGBA p"
| "as_Image (DstRGBA64 p) = RGBA64 p"

definition deref :: "draw_Image \<Rightarrow> Image aliased \<Rightarrow> Image" where
  "deref dst src = (case src of Same \<Rightarrow> as_Image dst | Other i \<Rightarrow> i)"

text \<open>Go's integer division truncates towards zero.\<close>

definition quo :: "int \<Rightarrow> int \<Rightarrow> int" where
  "quo a b = sgn a * sgn b * (\<bar>a\<bar> div \<bar>b\<bar>)"

text \<open>Modelled from the spec: \<open>Bounds\<close> and \<open>At\<close> of the images. A \<open>ColorImage\<close> is
  unbounded (\<open>-1e9 .. 1e9\<close>) and has one colour; the others return the zero colour
  outside their bounds and read their arrays inside.\<close>

fun Bounds :: "Image \<Rightarrow> Rectangle" where
  "Bounds (ColorImage c) = Rect_of (- 1000000000) (- 1000000000) 1000000000 1000000000"
| "Bounds (RGBA p) = Rect p"
| "Bounds (NRGBA p) = Rect p"
| "Bounds (Alpha p) = Rect p"
| "Bounds (RGBA64 p) = Rect p"
| "Bounds (YCbCrImage p) = Rect_y p"

definition pix_At :: "'c PixImage \<Rightarrow> 'c \<Rightarrow> int \<Rightarrow> int \<Rightarrow> error + 'c" where
  "pix_At p zero x y =
     (if \<not> Contains (Rect p) (Pt x y) then Inr zero else idx (Pix p) (y * Stride p + x))"

definition YCbCr_At :: "YCbCr \<Rightarrow> int \<Rightarrow> int \<Rightarrow> error + Color" where
  "YCbCr_At p x y =
     (if \<not> Contains (Rect_y p) (Pt x y) then Inr (YCbCrColor 0 0 0)
      else
        let ci = (if SubsampleRatio p = SubsampleRatio422 then y * CStride p + quo x 2
                  else if SubsampleRatio p = SubsampleRatio420
                  then quo y 2 * CStride p + quo x 2
                  else y * CStride p + x)
        in bind_e (idx (Y_plane p) (y * YStride p + x)) (\<lambda>yy.
           bind_e (idx (Cb_plane p) ci) (\<lambda>cb.
           bind_e (idx (Cr_plane p) ci) (\<lambda>cr. Inr (YCbCrColor yy cb cr)))))"

fun At :: "Image \<Rightarrow> int \<Rightarrow> int \<Rightarrow> error + Color" where
  "At (ColorImage c) x y = Inr c"
| "At (RGBA p) x y = map_sum id RGBAColor (pix_At p (0, 0, 0, 0) x y)"
| "At (NRGBA p) x y = map_sum id NRGBAColor (pix_At p (0, 0, 0, 0) x y)"
| "At (Alpha p) x y = map_sum id AlphaColor (pix_At p 0 x y)"
| "At (RGBA64 p) x y = map_sum id RGBA64Color (pix_At p (0, 0, 0, 0) x y)"
| "At (YCbCrImage p) x y = YCbCr_At p x y"

text \<open>Modelled from the spec: \<open>Set\<close> of a destination; outside the bounds it does
  nothing, inside it stores the colour converted to the image's colour model.\<close>

definition pix_Set :: "'c PixImage \<Rightarrow> int \<Rightarrow> int \<Rightarrow> 'c \<Rightarrow> error + 'c PixImage" where
  "pix_Set p x y v =
     (if \<not> Contains (Rect p) (Pt x y) then Inr p
      else map_sum id (\<lambda>xs. p\<lparr>Pix := xs\<rparr>) (upd (Pix p) (y * Stride p + x) v))"

fun Set_d :: "YCbCrToRGB \<Rightarrow> draw_Image \<Rightarrow> int \<Rightarrow> int \<Rightarrow> Color \<Rightarrow> error + draw_Image" where
  "Set_d conv (DstRGBA p) x y c = map_sum id DstRGBA (pix_Set p x y (toRGBAColor conv c))"
| "Set_d conv (DstRGBA64 p) x y c = map_sum id DstRGBA64 (pix_Set p x y (toRGBA64Color conv c))"

section \<open>Loops\<close>

text \<open>\<open>for i := i0; i != i1; i += d\<close> with \<open>d\<close> either 1 or -1. When the counter
  starts beyond the bound it moves away from it for ever: no return.\<close>

function for_loop :: "int \<Rightarrow> int \<Rightarrow> int \<Rightarrow> (int \<Rightarrow> 's \<Rightarrow> error + 's) \<Rightarrow> 's \<Rightarrow> error + 's" where
  "for_loop i i1 d body s =
     (if i = i1 then Inr s
      else if (d = 1 \<and> i < i1) \<or> (d = - 1 \<and> i1 < i) then
        (case body i s of Inl e \<Rightarrow> Inl e | Inr s' \<Rightarrow> for_loop (i + d) i1 d body s')
      else Inl NoReturn)"
  by pat_completeness auto
termination
  by (relation "measure (\<lambda>(i, i1, d, body, s). nat \<bar>i1 - i\<bar>)") auto

declare for_loop.simps [simp del]

text \<open>A loop over a fixed list of indices: \<open>for i := range xs\<close>, and the countdown
  \<open>for ; nrows > 0; nrows--\<close>.\<close>

primrec fold_e :: "('a \<Rightarrow> 's \<Rightarrow> error + 's) \<Rightarrow> 'a list \<Rightarrow> 's \<Rightarrow> error + 's" where
  "fold_e body [] s = Inr s"
| "fold_e body (i # is) s = (case body i s of Inl e \<Rightarrow> Inl e | Inr s' \<Rightarrow> fold_e body is s')"

section \<open>Per-pixel arithmetic of the fast paths\<close>

text \<open>\<open>dr := (uint32(rgba.R)*a)/m + cr\<close> and the same for the other channels, then
  the packing into an \<open>RGBAColor\<close> (\<open>drawFillOver\<close>, \<open>drawCopyOver\<close>).\<close>

definition over_add :: "u32 \<Rightarrow> rgba32 \<Rightarrow> rgba8 \<Rightarrow> rgba8" where
  "over_add a s d = (case (s, d) of ((sr, sg, sb, sa), (r8, g8, b8, a8)) \<Rightarrow>
     pack8 ((ucast r8 * a) div m + sr, (ucast g8 * a) div m + sg,
            (ucast b8 * a) div m + sb, (ucast a8 * a) div m + sa))"

text \<open>\<open>dr = (dr*a + sr*ma) / m\<close> and the same for the other channels, then the
  packing (\<open>drawNRGBAOver\<close>, \<open>drawGlyphOver\<close>, \<open>drawRGBA\<close>).\<close>

definition over_mul :: "u32 \<Rightarrow> u32 \<Rightarrow> rgba32 \<Rightarrow> rgba8 \<Rightarrow> rgba8" where
  "over_mul a ma s d = (case (s, d) of ((sr, sg, sb, sa), (r8, g8, b8, a8)) \<Rightarrow>
     pack8 ((ucast r8 * a + sr * ma) div m, (ucast g8 * a + sg * ma) div m,
            (ucast b8 * a + sb * ma) div m, (ucast a8 * a + sa * ma) div m))"

text \<open>\<open>dr = sr * ma / m\<close> and the same for the other channels, then the packing
  (\<open>drawRGBA\<close> with \<open>Src\<close>).\<close>

definition src_mul :: "u32 \<Rightarrow> rgba32 \<Rightarrow> rgba8" where
  "src_mul ma s = (case s of (sr, sg, sb, sa) \<Rightarrow>
     pack8 (sr * ma div m, sg * ma div m, sb * ma div m, sa * ma div m))"

text \<open>The built-in \<open>copy(dst[d0:d1], src[s0:s1])\<close>: it copies the shorter of the two
  lengths and behaves as if the source were read in full before the first write.\<close>

definition copy_s :: "'a list \<Rightarrow> int \<Rightarrow> int \<Rightarrow> 'a list \<Rightarrow> int \<Rightarrow> int \<Rightarrow> 'a list" where
  "copy_s dpix d0 d1 spix s0 s1 =
     (let n = nat (min (d1 - d0) (s1 - s0))
      in take (nat d0) dpix @ take n (drop (nat s0) spix) @ drop (nat d0 + n) dpix)"

section \<open>The fast paths\<close>

text \<open>Each fast path works on the pixel array of the destination, which is the state of
  its loops; \<open>Stride\<close> and \<open>Rect\<close> never change. The variables that a loop advances in
  step with its counter (\<open>sy\<close> with \<open>y\<close>, \<open>sx\<close> with \<open>x\<close>) are written as the
  counter plus their constant offset.\<close>

definition with_Pix :: "'c PixImage \<Rightarrow> error + 'c list \<Rightarrow> error + 'c PixImage" where
  "with_Pix dst res = map_sum id (\<lambda>pix. dst\<lparr>Pix := pix\<rparr>) res"

definition drawFillOver ::
  "YCbCrToRGB \<Rightarrow> rgba8 PixImage \<Rightarrow> Rectangle \<Rightarrow> Color \<Rightarrow> error + rgba8 PixImage" where
  "drawFillOver conv dst r src =
     (let c = RGBA_of conv src;
          a = (m - snd (snd (snd c))) * 0x101;
          x0 = X (Min_r r); x1 = X (Max_r r);
          y0 = Y (Min_r r); y1 = Y (Max_r r)
      in with_Pix dst
          (for_loop y0 y1 1
            (\<lambda>y pix.
               let dbase = y * Stride dst; lo = dbase + x0; hi = dbase + x1
               in if \<not> slice_ok pix lo hi then Inl IndexOutOfRange
                  else fold_e (\<lambda>i pix. bind_e (idx_s pix lo hi (int i))
                                 (\<lambda>rgba. upd_s pix lo hi (int i) (over_add a c rgba)))
                         [0 ..< nat (hi - lo)] pix)
            (Pix dst)))"

text \<open>In \<open>drawCopyOver\<close> and \<open>drawCopySrc\<close> the source may be the destination itself;
  then \<open>spix\<close> is a slice of the array being written.\<close>

definition src_Pix :: "'c PixImage aliased \<Rightarrow> 'c list \<Rightarrow> 'c list" where
  "src_Pix src pix = (case src of Same \<Rightarrow> pix | Other s \<Rightarrow> Pix s)"

definition src_Stride :: "'c PixImage \<Rightarrow> 'c PixImage aliased \<Rightarrow> int" where
  "src_Stride dst src = (case src of Same \<Rightarrow> Stride dst | Other s \<Rightarrow> Stride s)"

definition drawCopyOver ::
  "rgba8 PixImage \<Rightarrow> Rectangle \<Rightarrow> rgba8 PixImage aliased \<Rightarrow> Point \<Rightarrow> error + rgba8 PixImage" where
  "drawCopyOver dst r src sp =
     (let dx0 = X (Min_r r); dx1 = X (Max_r r);
          dy0 = Y (Min_r r); dy1 = Y (Max_r r);
          nrows = dy1 - dy0;
          sx0 = X sp; sx1 = X sp + dx1 - dx0;
          d0 = dy0 * Stride dst + dx0;
          d1 = dy0 * Stride dst + dx1;
          s0 = Y sp * src_Stride dst src + sx0;
          s1 = Y sp * src_Stride dst src + sx1;
          fwd = (Y (Min_r r) < Y sp \<or> Y (Min_r r) = Y sp \<and> X (Min_r r) \<le> X sp);
          ddelta = (if fwd then Stride dst else - Stride dst);
          sdelta = (if fwd then src_Stride dst src else - src_Stride dst src);
          i0 = (if fwd then 0 else d1 - d0 - 1);
          i1 = (if fwd then d1 - d0 else - 1);
          idelta = (if fwd then 1 else - 1);
          d0' = (if fwd then d0 else d0 + (nrows - 1) * Stride dst);
          d1' = (if fwd then d1 else d1 + (nrows - 1) * Stride dst);
          s0' = (if fwd then s0 else s0 + (nrows - 1) * src_Stride dst src);
          s1' = (if fwd then s1 else s1 + (nrows - 1) * src_Stride dst src)
      in with_Pix dst
          (fold_e
            (\<lambda>k pix.
               let a0 = d0' + int k * ddelta; a1 = d1' + int k * ddelta;
                   b0 = s0' + int k * sdelta; b1 = s1' + int k * sdelta
               in if \<not> slice_ok pix a0 a1 \<or> \<not> slice_ok (src_Pix src pix) b0 b1
                  then Inl IndexOutOfRange
                  else for_loop i0 i1 idelta
                         (\<lambda>i pix. bind_e (idx_s (src_Pix src pix) b0 b1 i)
                            (\<lambda>s. bind_e (idx_s pix a0 a1 i)
                            (\<lambda>rgba. upd_s pix a0 a1 i
                               (let c = (case s of (r8, g8, b8, a8) \<Rightarrow>
                                           (widen8 r8, widen8 g8, widen8 b8, widen8 a8))
                                in over_add ((m - snd (snd (snd c))) * 0x101) c rgba))))
                         pix)
            [0 ..< nat nrows] (Pix dst)))"

definition drawNRGBAOver ::
  "rgba8 PixImage \<Rightarrow> Rectangle \<Rightarrow> rgba8 PixImage \<Rightarrow> Point \<Rightarrow> error + rgba8 PixImage" where
  "drawNRGBAOver dst r src sp =
     with_Pix dst
       (for_loop (Y (Min_r r)) (Y (Max_r r)) 1
         (\<lambda>y pix.
            let sy = Y sp + (y - Y (Min_r r));
                dlo = y * Stride dst; dhi = (y + 1) * Stride dst;
                slo = sy * Stride src; shi = (sy + 1) * Stride src
            in if \<not> slice_ok pix dlo dhi \<or> \<not> slice_ok (Pix src) slo shi
               then Inl IndexOutOfRange
               else for_loop (X (Min_r r)) (X (Max_r r)) 1
                      (\<lambda>x pix.
                         let sx = X sp + (x - X (Min_r r))
                         in bind_e (idx_s (Pix src) slo shi sx)
                              (\<lambda>snrgba. bind_e (idx_s pix dlo dhi x)
                              (\<lambda>rgba. upd_s pix dlo dhi x
                                 (let c = nrgba_premul snrgba
                                  in over_mul ((m - snd (snd (snd c))) * 0x101) m c rgba))))
                      pix)
         (Pix dst))"

definition drawGlyphOver ::
  "YCbCrToRGB \<Rightarrow> rgba8 PixImage \<Rightarrow> Rectangle \<Rightarrow> Color \<Rightarrow> u8 PixImage \<Rightarrow> Point
     \<Rightarrow> error + rgba8 PixImage" where
  "drawGlyphOver conv dst r src msk mp =
     (let x0 = X (Min_r r); x1 = X (Max_r r);
          y0 = Y (Min_r r); y1 = Y (Max_r r);
          c = RGBA_of conv src; ca = snd (snd (snd c))
      in with_Pix dst
          (for_loop y0 y1 1
            (\<lambda>y pix.
               let my = Y mp + (y - y0);
                   dbase = y * Stride dst; lo = dbase + x0; hi = dbase + x1;
                   mbase = my * Stride msk; mlo = mbase + X mp;
                   mhi = int (length (Pix msk))
               in if \<not> slice_ok pix lo hi \<or> \<not> slice_ok (Pix msk) mlo mhi
                  then Inl IndexOutOfRange
                  else fold_e
                         (\<lambda>i pix. bind_e (idx_s pix lo hi (int i))
                            (\<lambda>rgba. bind_e (idx_s (Pix msk) mlo mhi (int i))
                            (\<lambda>ma8.
                               let ma = (ucast ma8 :: u32)
                               in if ma = 0 then Inr pix
                                  else let ma = ma OR push_bit 8 ma
                                       in upd_s pix lo hi (int i)
                                            (over_mul ((m - (ca * ma div m)) * 0x101) ma c rgba))))
                         [0 ..< nat (hi - lo)] pix)
            (Pix dst)))"

definition drawFillSrc ::
  "YCbCrToRGB \<Rightarrow> rgba8 PixImage \<Rightarrow> Rectangle \<Rightarrow> Color \<Rightarrow> error + rgba8 PixImage" where
  "drawFillSrc conv dst r src =
     (if Y (Max_r r) - Y (Min_r r) < 1 then Inr dst
      else
        let color = pack8 (RGBA_of conv src);
            dx0 = X (Min_r r); dx1 = X (Max_r r);
            dy0 = Y (Min_r r); dy1 = Y (Max_r r);
            dbase = dy0 * Stride dst;
            i0 = dbase + dx0; i1 = dbase + dx1
        in if \<not> slice_ok (Pix dst) i0 i1 then Inl IndexOutOfRange
           else with_Pix dst
             (bind_e
                (fold_e (\<lambda>i pix. upd_s pix i0 i1 (int i) color) [0 ..< nat (i1 - i0)] (Pix dst))
                (fold_e
                   (\<lambda>y pix.
                      let j0 = i0 + (y - dy0) * Stride dst; j1 = i1 + (y - dy0) * Stride dst
                      in if \<not> slice_ok pix j0 j1 then Inl IndexOutOfRange
                         else Inr (copy_s pix j0 j1 pix i0 i1))
                   [dy0 + 1 .. dy1 - 1])))"

definition drawCopySrc ::
  "rgba8 PixImage \<Rightarrow> Rectangle \<Rightarrow> rgba8 PixImage aliased \<Rightarrow> Point \<Rightarrow> error + rgba8 PixImage" where
  "drawCopySrc dst r src sp =
     (let dx0 = X (Min_r r); dx1 = X (Max_r r);
          dy0 = Y (Min_r r); dy1 = Y (Max_r r);
          nrows = dy1 - dy0;
          sx0 = X sp; sx1 = X sp + dx1 - dx0;
          d0 = dy0 * Stride dst + dx0;
          d1 = dy0 * Stride dst + dx1;
          s0 = Y sp * src_Stride dst src + sx0;
          s1 = Y sp * src_Stride dst src + sx1;
          fwd = (Y (Min_r r) \<le> Y sp);
          ddelta = (if fwd then Stride dst else - Stride dst);
          sdelta = (if fwd then src_Stride dst src else - src_Stride dst src);
          d0' = (if fwd then d0 else d0 + (nrows - 1) * Stride dst);
          d1' = (if fwd then d1 else d1 + (nrows - 1) * Stride dst);
          s0' = (if fwd then s0 else s0 + (nrows - 1) * src_Stride dst src);
          s1' = (if fwd then s1 else s1 + (nrows - 1) * src_Stride dst src)
      in with_Pix dst
          (fold_e
            (\<lambda>k pix.
               let a0 = d0' + int k * ddelta; a1 = d1' + int k * ddelta;
                   b0 = s0' + int k * sdelta; b1 = s1' + int k * sdelta
               in if \<not> slice_ok pix a0 a1 \<or> \<not> slice_ok (src_Pix src pix) b0 b1
                  then Inl IndexOutOfRange
                  else Inr (copy_s pix a0 a1 (src_Pix src pix) b0 b1))
            [0 ..< nat nrows] (Pix dst)))"

definition drawNRGBASrc ::
  "rgba8 PixImage \<Rightarrow> Rectangle \<Rightarrow> rgba8 PixImage \<Rightarrow> Point \<Rightarrow> error + rgba8 PixImage" where
  "drawNRGBASrc dst r src sp =
     with_Pix dst
       (for_loop (Y (Min_r r)) (Y (Max_r r)) 1
         (\<lambda>y pix.
            let sy = Y sp + (y - Y (Min_r r));
                dlo = y * Stride dst; dhi = (y + 1) * Stride dst;
                slo = sy * Stride src; shi = (sy + 1) * Stride src
            in if \<not> slice_ok pix dlo dhi \<or> \<not> slice_ok (Pix src) slo shi
               then Inl IndexOutOfRange
               else for_loop (X (Min_r r)) (X (Max_r r)) 1
                      (\<lambda>x pix.
                         let sx = X sp + (x - X (Min_r r))
                         in bind_e (idx_s (Pix src) slo shi sx)
                              (\<lambda>snrgba. upd_s pix dlo dhi x (pack8 (nrgba_premul snrgba))))
                      pix)
         (Pix dst))"

text \<open>\<open>drawYCbCr\<close>: one double loop per subsampling ratio; the three differ in the index
  of the chroma sample only.\<close>

definition chroma_index :: "YCbCr \<Rightarrow> int \<Rightarrow> int \<Rightarrow> int" where
  "chroma_index src sx sy =
     (if SubsampleRatio src = SubsampleRatio422 then sy * CStride src + quo sx 2
      else if SubsampleRatio src = SubsampleRatio420 then quo sy 2 * CStride src + quo sx 2
      else sy * CStride src + sx)"

definition drawYCbCr ::
  "YCbCrToRGB \<Rightarrow> rgba8 PixImage \<Rightarrow> Rectangle \<Rightarrow> YCbCr \<Rightarrow> Point \<Rightarrow> error + rgba8 PixImage" where
  "drawYCbCr conv dst r src sp =
     with_Pix dst
       (for_loop (Y (Min_r r)) (Y (Max_r r)) 1
         (\<lambda>y pix.
            let sy = Y sp + (y - Y (Min_r r));
                dlo = y * Stride dst; dhi = (y + 1) * Stride dst
            in if \<not> slice_ok pix dlo dhi then Inl IndexOutOfRange
               else for_loop (X (Min_r r)) (X (Max_r r)) 1
                      (\<lambda>x pix.
                         let sx = X sp + (x - X (Min_r r))
                         in bind_e (idx (Y_plane src) (sy * YStride src + sx))
                              (\<lambda>yy. bind_e (idx (Cb_plane src) (chroma_index src sx sy))
                              (\<lambda>cb. bind_e (idx (Cr_plane src) (chroma_index src sx sy))
                              (\<lambda>cr. case conv yy cb cr of (rr, gg, bb) \<Rightarrow>
                                       upd_s pix dlo dhi x (rr, gg, bb, 255)))))
                      pix)
         (Pix dst))"

section \<open>The general loops\<close>

text \<open>The direction of the sweep, decided once: \<open>image.Image(dst) == src &&
  r.Overlaps(r.Add(sp.Sub(r.Min)))\<close> and \<open>sp.Y < r.Min.Y || sp.Y == r.Min.Y &&
  sp.X < r.Min.X\<close>. When it holds both counters run downwards.\<close>

definition backward :: "bool \<Rightarrow> Rectangle \<Rightarrow> Point \<Rightarrow> bool" where
  "backward same r sp \<longleftrightarrow>
     same \<and> Overlaps r (Add_r r (Sub_p sp (Min_r r))) \<and>
     (Y sp < Y (Min_r r) \<or> Y sp = Y (Min_r r) \<and> X sp < X (Min_r r))"

text \<open>\<open>x0, x1, dx\<close> (and \<open>y0, y1, dy\<close>) from the two ends of an axis.\<close>

definition sweep :: "bool \<Rightarrow> int \<Rightarrow> int \<Rightarrow> int \<times> int \<times> int" where
  "sweep bw lo hi = (if bw then (hi - 1, lo - 1, - 1) else (lo, hi, 1))"

text \<open>The mask's coverage: \<open>ma := uint32(m)\<close>, and \<open>_, _, _, ma = mask.At(mx,
  my).RGBA()\<close> when there is a mask.\<close>

definition mask_alpha :: "YCbCrToRGB \<Rightarrow> Image option \<Rightarrow> int \<Rightarrow> int \<Rightarrow> error + u32" where
  "mask_alpha conv msk mx my =
     (case msk of None \<Rightarrow> Inr m
      | Some i \<Rightarrow> map_sum id (\<lambda>c. snd (snd (snd (RGBA_of conv c)))) (At i mx my))"

definition drawRGBA ::
  "YCbCrToRGB \<Rightarrow> rgba8 PixImage \<Rightarrow> Rectangle \<Rightarrow> Image aliased \<Rightarrow> Point \<Rightarrow> Image option
     \<Rightarrow> Point \<Rightarrow> Op \<Rightarrow> error + rgba8 PixImage" where
  "drawRGBA conv dst r src sp msk mp op =
     (let bw = backward (src = Same) r sp
      in case sweep bw (X (Min_r r)) (X (Max_r r)) of (x0, x1, dx) \<Rightarrow>
         case sweep bw (Y (Min_r r)) (Y (Max_r r)) of (y0, y1, dy) \<Rightarrow>
         with_Pix dst
          (for_loop y0 y1 dy
            (\<lambda>y pix.
               let sy = Y sp + (y - Y (Min_r r)); my = Y mp + (y - Y (Min_r r));
                   dlo = y * Stride dst; dhi = (y + 1) * Stride dst
               in if \<not> slice_ok pix dlo dhi then Inl IndexOutOfRange
                  else for_loop x0 x1 dx
                         (\<lambda>x pix.
                            let sx = X sp + (x - X (Min_r r)); mx = X mp + (x - X (Min_r r))
                            in bind_e (mask_alpha conv msk mx my)
                                 (\<lambda>ma. bind_e (At (deref (DstRGBA (dst\<lparr>Pix := pix\<rparr>)) src) sx sy)
                                 (\<lambda>sc. let s = RGBA_of conv sc
                                        in case op of
                                             Over \<Rightarrow>
                                               bind_e (idx_s pix dlo dhi x)
                                                 (\<lambda>rgba. upd_s pix dlo dhi x
                                                   (over_mul
                                                     ((m - (snd (snd (snd s)) * ma div m)) * 0x101)
                                                     ma s rgba))
                                           | Src \<Rightarrow> upd_s pix dlo dhi x (src_mul ma s))))
                         pix)
            (Pix dst)))"

text \<open>The colour that the general loop of \<open>DrawMask\<close> builds in \<open>out\<close>.\<close>

definition out_Over :: "u32 \<Rightarrow> rgba32 \<Rightarrow> rgba32 \<Rightarrow> Color" where
  "out_Over ma s d = (case (s, d) of ((sr, sg, sb, sa), (dr, dg, db, da)) \<Rightarrow>
     let a = m - (sa * ma div m)
     in RGBA64Color (ucast ((dr * a + sr * ma) div m), ucast ((dg * a + sg * ma) div m),
                     ucast ((db * a + sb * ma) div m), ucast ((da * a + sa * ma) div m)))"

definition out_Src :: "u32 \<Rightarrow> rgba32 \<Rightarrow> Color" where
  "out_Src ma s = (case s of (sr, sg, sb, sa) \<Rightarrow>
     RGBA64Color (ucast (sr * ma div m), ucast (sg * ma div m),
                  ucast (sb * ma div m), ucast (sa * ma div m)))"

text \<open>One pass of the inner loop of the general compositor, at the destination pixel
  \<open>(x, y)\<close>, the source pixel \<open>(sx, sy)\<close> and the mask pixel \<open>(mx, my)\<close>.\<close>

definition generic_pixel ::
  "YCbCrToRGB \<Rightarrow> Image aliased \<Rightarrow> Image option \<Rightarrow> Op \<Rightarrow> int \<Rightarrow> int \<Rightarrow> int \<Rightarrow> int \<Rightarrow> int \<Rightarrow> int
     \<Rightarrow> draw_Image \<Rightarrow> error + draw_Image" where
  "generic_pixel conv src msk op x y sx sy mx my dst =
     bind_e (mask_alpha conv msk mx my)
       (\<lambda>ma. if ma = 0 then (if op = Over then Inr dst else Set_d conv dst x y zeroColor)
              else if ma = m \<and> op = Src then
                bind_e (At (deref dst src) sx sy) (\<lambda>c. Set_d conv dst x y c)
              else
                bind_e (At (deref dst src) sx sy)
                  (\<lambda>sc. let s = RGBA_of conv sc
                         in if op = Over then
                              bind_e (At (as_Image dst) x y)
                                (\<lambda>dc. Set_d conv dst x y (out_Over ma s (RGBA_of conv dc)))
                            else Set_d conv dst x y (out_Src ma s)))"

text \<open>The general compositor: the double loop at the end of \<open>DrawMask\<close>.\<close>

definition drawGeneric ::
  "YCbCrToRGB \<Rightarrow> draw_Image \<Rightarrow> Rectangle \<Rightarrow> Image aliased \<Rightarrow> Point \<Rightarrow> Image option
     \<Rightarrow> Point \<Rightarrow> Op \<Rightarrow> error + draw_Image" where
  "drawGeneric conv dst r src sp msk mp op =
     (let bw = backward (src = Same) r sp
      in case sweep bw (X (Min_r r)) (X (Max_r r)) of (x0, x1, dx) \<Rightarrow>
         case sweep bw (Y (Min_r r)) (Y (Max_r r)) of (y0, y1, dy) \<Rightarrow>
         for_loop y0 y1 dy
           (\<lambda>y. for_loop x0 x1 dx
                  (\<lambda>x. generic_pixel conv src msk op x y
                          (X sp + (x - X (Min_r r))) (Y sp + (y - Y (Min_r r)))
                          (X mp + (x - X (Min_r r))) (Y mp + (y - Y (Min_r r)))))
           dst)"

section \<open>The dispatcher\<close>

text \<open>The type switch over the source and the mask for an \<open>image.RGBA\<close> destination.
  A source that is the destination itself is an \<open>image.RGBA\<close>.\<close>

definition dispatch_RGBA ::
  "YCbCrToRGB \<Rightarrow> rgba8 PixImage \<Rightarrow> Rectangle \<Rightarrow> Image aliased \<Rightarrow> Point \<Rightarrow> Image option
     \<Rightarrow> Point \<Rightarrow> Op \<Rightarrow> error + rgba8 PixImage" where
  "dispatch_RGBA conv dst0 r src sp msk mp op =
     (if op = Over then
        (case msk of
           None \<Rightarrow>
             (case src of
                Same \<Rightarrow> drawCopyOver dst0 r Same sp
              | Other (ColorImage c) \<Rightarrow> drawFillOver conv dst0 r c
              | Other (RGBA src0) \<Rightarrow> drawCopyOver dst0 r (Other src0) sp
              | Other (NRGBA src0) \<Rightarrow> drawNRGBAOver dst0 r src0 sp
              | Other (YCbCrImage src0) \<Rightarrow> drawYCbCr conv dst0 r src0 sp
              | _ \<Rightarrow> drawRGBA conv dst0 r src sp msk mp op)
         | Some (Alpha mask0) \<Rightarrow>
             (case src of
                Other (ColorImage c) \<Rightarrow> drawGlyphOver conv dst0 r c mask0 mp
              | _ \<Rightarrow> drawRGBA conv dst0 r src sp msk mp op)
         | _ \<Rightarrow> drawRGBA conv dst0 r src sp msk mp op)
      else
        (case msk of
           None \<Rightarrow>
             (case src of
                Same \<Rightarrow> drawCopySrc dst0 r Same sp
              | Other (ColorImage c) \<Rightarrow> drawFillSrc conv dst0 r c
              | Other (RGBA src0) \<Rightarrow> drawCopySrc dst0 r (Other src0) sp
              | Other (NRGBA src0) \<Rightarrow> drawNRGBASrc dst0 r src0 sp
              | Other (YCbCrImage src0) \<Rightarrow> drawYCbCr conv dst0 r src0 sp
              | _ \<Rightarrow> drawRGBA conv dst0 r src sp msk mp op)
         | _ \<Rightarrow> drawRGBA conv dst0 r src sp msk mp op))"

text \<open>\<open>DrawMask\<close>: clip, return at once on an empty rectangle, then the fast paths for
  an \<open>image.RGBA\<close> destination and the general loop for any other.\<close>

definition DrawMask ::
  "YCbCrToRGB \<Rightarrow> draw_Image \<Rightarrow> Rectangle \<Rightarrow> Image aliased \<Rightarrow> Point \<Rightarrow> Image option
     \<Rightarrow> Point \<Rightarrow> Op \<Rightarrow> error + draw_Image" where
  "DrawMask conv dst r src sp msk mp op =
     (case clip (Bounds (as_Image dst)) r (Bounds (deref dst src)) sp (map_option Bounds msk) mp
      of (r', sp', mp') \<Rightarrow>
        if Empty_r r' then Inr dst
        else case dst of
               DstRGBA dst0 \<Rightarrow> map_sum id DstRGBA (dispatch_RGBA conv dst0 r' src sp' msk mp' op)
             | _ \<Rightarrow> drawGeneric conv dst r' src sp' msk mp' op)"

text \<open>\<open>Draw\<close> calls \<open>DrawMask\<close> with a nil mask and an \<open>Over\<close> op.\<close>

definition Draw ::
  "YCbCrToRGB \<Rightarrow> draw_Image \<Rightarrow> Rectangle \<Rightarrow> Image aliased \<Rightarrow> Point \<Rightarrow> error + draw_Image" where
  "Draw conv dst r src sp = DrawMask conv dst r src sp None ZP Over"

section \<open>Vocabulary of the specification\<close>

text \<open>The pixel array \<open>s\<close> of an image with the given stride after the pixels of the
  rectangle \<open>r\<close> have been replaced: the pixel at \<open>(x, y)\<close> of \<open>r\<close> becomes
  \<open>f x y old\<close>, every other element is kept.\<close>

definition paint :: "int \<Rightarrow> Rectangle \<Rightarrow> (int \<Rightarrow> int \<Rightarrow> 'c \<Rightarrow> 'c) \<Rightarrow> 'c list \<Rightarrow> 'c list" where
  "paint stride r f s =
     map (\<lambda>j. let x = int j mod stride; y = int j div stride
              in if Contains r (Pt x y) then f x y (s ! j) else s ! j)
         [0 ..< length s]"

text \<open>An image whose bounds agree with its storage, as \<open>image.NewRGBA\<close> and
  \<open>SubImage\<close> make them: non-negative coordinates, rows no longer than the stride, and
  an array that holds every row up to \<open>Rect.Max.Y\<close>.\<close>

definition wf_Pix :: "'c PixImage \<Rightarrow> bool" where
  "wf_Pix p \<longleftrightarrow>
     0 \<le> X (Min_r (Rect p)) \<and> 0 \<le> Y (Min_r (Rect p)) \<and>
     X (Max_r (Rect p)) \<le> Stride p \<and>
     Y (Max_r (Rect p)) * Stride p \<le> int (length (Pix p))"

text \<open>\<open>r\<close> is not empty and lies within \<open>b\<close>.\<close>

definition inside :: "Rectangle \<Rightarrow> Rectangle \<Rightarrow> bool" where
  "inside r b \<longleftrightarrow>
     X (Min_r r) < X (Max_r r) \<and> Y (Min_r r) < Y (Max_r r) \<and>
     X (Min_r b) \<le> X (Min_r r) \<and> Y (Min_r b) \<le> Y (Min_r r) \<and>
     X (Max_r r) \<le> X (Max_r b) \<and> Y (Max_r r) \<le> Y (Max_r b)"

text \<open>A \<open>ycbcr.YCbCr\<close> whose planes hold its bounds: the luma plane as above, the
  chroma planes at half the width for 4:2:2 and 4:2:0 and at half the height for 4:2:0.\<close>

definition wf_YCbCr :: "YCbCr \<Rightarrow> bool" where
  "wf_YCbCr p \<longleftrightarrow>
     (let x1 = X (Max_r (Rect_y p)); y1 = Y (Max_r (Rect_y p));
          cw = (if SubsampleRatio p = SubsampleRatio422 \<or> SubsampleRatio p = SubsampleRatio420
                then (x1 + 1) div 2 else x1);
          ch = (if SubsampleRatio p = SubsampleRatio420 \<and> SubsampleRatio p \<noteq> SubsampleRatio422
                then (y1 + 1) div 2 else y1)
      in 0 \<le> X (Min_r (Rect_y p)) \<and> 0 \<le> Y (Min_r (Rect_y p)) \<and>
         x1 \<le> YStride p \<and> y1 * YStride p \<le> int (length (Y_plane p)) \<and>
         cw \<le> CStride p \<and> ch * CStride p \<le> int (length (Cb_plane p)) \<and>
         ch * CStride p \<le> int (length (Cr_plane p)))"

text \<open>The pixel that \<open>drawYCbCr\<close> stores for the source pixel \<open>(sx, sy)\<close>.\<close>

definition YCbCr_pixel :: "YCbCrToRGB \<Rightarrow> YCbCr \<Rightarrow> int \<Rightarrow> int \<Rightarrow> rgba8" where
  "YCbCr_pixel conv src sx sy =
     (case conv (Y_plane src ! nat (sy * YStride src + sx))
                (Cb_plane src ! nat (chroma_index src sx sy))
                (Cr_plane src ! nat (chroma_index src sx sy))
      of (rr, gg, bb) \<Rightarrow> (rr, gg, bb, 255))"

section \<open>Small images for the examples\<close>

definition ex_dst :: "rgba8 PixImage" where
  "ex_dst = \<lparr>Pix = [(0, 0, 0, 0), (9, 9, 9, 9)], Stride = 2, Rect = Rect_of 0 0 2 1\<rparr>"

definition ex_ycc :: "int \<Rightarrow> YCbCr" where
  "ex_ycc ratio = \<lparr>Y_plane = [10, 20], Cb_plane = [1, 2], Cr_plane = [3, 4], YStride = 2,
     CStride = 2, SubsampleRatio = ratio, Rect_y = Rect_of 0 0 2 1\<rparr>"

definition ex_conv :: YCbCrToRGB where
  "ex_conv y cb cr = (y, cb, cr)"


text \<open>Sources and masks whose bounds agree with their storage.\<close>

definition wf_Image :: "Image \<Rightarrow> bool" where
  "wf_Image i =
     (case i of ColorImage c \<Rightarrow> True | RGBA p \<Rightarrow> wf_Pix p | NRGBA p \<Rightarrow> wf_Pix p
      | Alpha p \<Rightarrow> wf_Pix p | RGBA64 p \<Rightarrow> wf_Pix p | YCbCrImage p \<Rightarrow> wf_YCbCr p)"

text \<open>The colour that \<open>At\<close> returns when it returns one.\<close>

definition color_At :: "Image \<Rightarrow> int \<Rightarrow> int \<Rightarrow> Color" where
  "color_At i x y = (case At i x y of Inr c \<Rightarrow> c | Inl e \<Rightarrow> zeroColor)"

section \<open>Facts about the widening\<close>

lemma widen_or_mult: "(ucast (v::u8) :: u32) OR push_bit 8 (ucast v) = ucast v * 0x101"
proof -
  let ?x = "ucast v :: u32"
  have "?x AND push_bit 8 ?x = 0"
    by (rule bit_eqI) (auto simp add: bit_simps dest: bit_imp_le_length)
  then have "?x + push_bit 8 ?x = ?x OR push_bit 8 ?x"
    by (simp add: disjunctive_add_eq_or)
  moreover have "?x + push_bit 8 ?x = ?x * 0x101"
    by (simp add: push_bit_eq_mult algebra_simps)
  ultimately show ?thesis by simp
qed

lemma unat_u8_less: "unat (v::u8) < 256"
  using unsigned_less [of v, where ?'a = nat] by simp

lemma unat_ucast_u8 [simp]: "unat (ucast (v::u8) :: u32) = unat v"
proof -
  have "unat v < 2 ^ 32" using unat_u8_less [of v] by simp
  then show ?thesis by (simp add: unsigned_ucast_eq take_bit_nat_eq_self)
qed

lemma unat_widen: "unat ((ucast (v::u8) :: u32) * 0x101) = unat v * 257"
  using unat_u8_less [of v] by (simp add: unat_word_ariths)

text \<open>
  Claim C7. Multiplying an 8-bit value by 257 is the exact widening
  \<open>v * 65535 / 255\<close>; it sends 0 to 0 and 255 to 65535; and the conversion of a
  non-premultiplied pixel written out in \<open>drawNRGBAOver\<close> and \<open>drawNRGBASrc\<close> gives
  the same four 32-bit values as the colour's own \<open>RGBA\<close> method, which the generic
  compositor uses.
\<close>

theorem mul257_widening_exact:
  "unat ((ucast (v::u8) :: u32) * 0x101) = unat v * 65535 div 255
   \<and> (ucast (0::u8) :: u32) * 0x101 = 0
   \<and> (ucast (255::u8) :: u32) * 0x101 = 65535
   \<and> nrgba_premul (r8, g8, b8, a8) = NRGBAColor_RGBA (r8, g8, b8, a8)"
proof -
  have "unat ((ucast v :: u32) * 0x101) = unat v * 65535 div 255"
    by (simp add: unat_widen)
  moreover have "nrgba_premul (r8, g8, b8, a8) = NRGBAColor_RGBA (r8, g8, b8, a8)"
    by (simp add: nrgba_premul_def NRGBAColor_RGBA_def Let_def widen_or_mult)
  ultimately show ?thesis by simp
qed

section \<open>Loops as folds\<close>

lemma for_loop_up:
  "i \<le> i1 \<Longrightarrow> for_loop i i1 1 body s = fold_e body [i .. i1 - 1] s"
proof (induction "nat (i1 - i)" arbitrary: i s)
  case 0
  then have "i = i1" by simp
  then show ?case by (subst for_loop.simps) simp
next
  case (Suc n)
  then have lt: "i < i1" by linarith
  then have up: "[i .. i1 - 1] = i # [i + 1 .. i1 - 1]" by (simp add: upto_rec1)
  have step: "\<And>s'. for_loop (i + 1) i1 1 body s' = fold_e body [i + 1 .. i1 - 1] s'"
    using Suc.hyps(1) [of "i + 1"] Suc.hyps(2) lt by simp
  show ?case
    using lt by (subst for_loop.simps) (simp add: up step split: sum.splits)
qed

lemma for_loop_down:
  "i1 \<le> i \<Longrightarrow> for_loop i i1 (- 1) body s = fold_e body (rev [i1 + 1 .. i]) s"
proof (induction "nat (i - i1)" arbitrary: i s)
  case 0
  then have "i = i1" by simp
  then show ?case by (subst for_loop.simps) simp
next
  case (Suc n)
  then have lt: "i1 < i" by linarith
  then have up: "[i1 + 1 .. i] = [i1 + 1 .. i - 1] @ [i]" by (simp add: upto_rec2)
  have step: "\<And>s'. for_loop (i - 1) i1 (- 1) body s' = fold_e body (rev [i1 + 1 .. i - 1]) s'"
    using Suc.hyps(1) [of "i - 1"] Suc.hyps(2) lt by simp
  show ?case
    using lt by (subst for_loop.simps) (simp add: up step split: sum.splits)
qed


section \<open>The scenario of the red square\<close>

text \<open>
  Claim C8. The destination is a 4 by 4 \<open>image.RGBA\<close>, fully transparent; the source
  is the uniform colour \<open>(65535, 0, 0, 65535)\<close>; the rectangle is the 2 by 2 square at
  \<open>(1, 1)\<close>; the operator is \<open>Src\<close>. The call returns; the twelve pixels of the border
  are still \<open>(0, 0, 0, 0)\<close> and the four inner ones read \<open>(65535, 0, 0, 65535)\<close>
  through \<open>RGBA\<close>.
\<close>

theorem red_square_Src:
  "DrawMask conv
     (DstRGBA \<lparr>Pix = replicate 16 (0, 0, 0, 0), Stride = 4, Rect = Rect_of 0 0 4 4\<rparr>)
     (Rect_of 1 1 3 3) (Other (ColorImage (RGBA64Color (65535, 0, 0, 65535)))) ZP None ZP Src
   = Inr (DstRGBA \<lparr>Pix =
       [(0, 0, 0, 0), (0, 0, 0, 0), (0, 0, 0, 0), (0, 0, 0, 0),
        (0, 0, 0, 0), (255, 0, 0, 255), (255, 0, 0, 255), (0, 0, 0, 0),
        (0, 0, 0, 0), (255, 0, 0, 255), (255, 0, 0, 255), (0, 0, 0, 0),
        (0, 0, 0, 0), (0, 0, 0, 0), (0, 0, 0, 0), (0, 0, 0, 0)],
       Stride = 4, Rect = Rect_of 0 0 4 4\<rparr>)
   \<and> RGBA_of conv (RGBAColor (255, 0, 0, 255)) = (65535, 0, 0, 65535)
   \<and> RGBA_of conv (RGBAColor (0, 0, 0, 0)) = (0, 0, 0, 0)"
  by code_simp

theorem red_square_Src_witness:
  "DrawMask (\<lambda>y cb cr. (y, cb, cr))
     (DstRGBA \<lparr>Pix = replicate 16 (0, 0, 0, 0), Stride = 4, Rect = Rect_of 0 0 4 4\<rparr>)
     (Rect_of 1 1 3 3) (Other (ColorImage (RGBA64Color (65535, 0, 0, 65535)))) ZP None ZP Src
   = Inr (DstRGBA \<lparr>Pix =
       [(0, 0, 0, 0), (0, 0, 0, 0), (0, 0, 0, 0), (0, 0, 0, 0),
        (0, 0, 0, 0), (255, 0, 0, 255), (255, 0, 0, 255), (0, 0, 0, 0),
        (0, 0, 0, 0), (255, 0, 0, 255), (255, 0, 0, 255), (0, 0, 0, 0),
        (0, 0, 0, 0), (0, 0, 0, 0), (0, 0, 0, 0), (0, 0, 0, 0)],
       Stride = 4, Rect = Rect_of 0 0 4 4\<rparr>)"
  using red_square_Src [of "\<lambda>y cb cr. (y, cb, cr)"] by (rule conjunct1)

section \<open>Loops that write each pixel once\<close>

lemma fold_e_blocks:
  assumes step: "\<And>i s. i \<in> set is \<Longrightarrow> length s = n \<Longrightarrow> P s \<Longrightarrow>
             \<exists>s'. body i s = Inr s' \<and> length s' = n \<and> P s' \<and>
                  (\<forall>j<n. s' ! j = (if j \<in> K i then G j (s ! j) else s ! j))"
      and disj: "\<And>i i'. i \<in> set is \<Longrightarrow> i' \<in> set is \<Longrightarrow> i \<noteq> i' \<Longrightarrow> K i \<inter> K i' = {}"
      and dist: "distinct is"
      and len: "length s = n" and init: "P s"
  shows "\<exists>s'. fold_e body is s = Inr s' \<and> length s' = n \<and> P s' \<and>
              (\<forall>j<n. s' ! j = (if j \<in> (\<Union>i\<in>set is. K i) then G j (s ! j) else s ! j))"
  using assms
proof (induction "is" arbitrary: s)
  case Nil
  then show ?case by simp
next
  case (Cons i "is")
  obtain s1 where s1: "body i s = Inr s1" "length s1 = n" "P s1"
      and s1v: "\<forall>j<n. s1 ! j = (if j \<in> K i then G j (s ! j) else s ! j)"
    using Cons.prems(1) [of i s] Cons.prems(4,5) by auto
  have "\<exists>s'. fold_e body is s1 = Inr s' \<and> length s' = n \<and> P s' \<and>
              (\<forall>j<n. s' ! j = (if j \<in> (\<Union>i\<in>set is. K i) then G j (s1 ! j) else s1 ! j))"
  proof (rule Cons.IH)
    show "\<And>i s. i \<in> set is \<Longrightarrow> length s = n \<Longrightarrow> P s \<Longrightarrow>
             \<exists>s'. body i s = Inr s' \<and> length s' = n \<and> P s' \<and>
                  (\<forall>j<n. s' ! j = (if j \<in> K i then G j (s ! j) else s ! j))"
      using Cons.prems(1) by simp
    show "\<And>i i'. i \<in> set is \<Longrightarrow> i' \<in> set is \<Longrightarrow> i \<noteq> i' \<Longrightarrow> K i \<inter> K i' = {}"
      using Cons.prems(2) by simp
    show "distinct is" using Cons.prems(3) by simp
    show "length s1 = n" by (rule s1(2))
    show "P s1" by (rule s1(3))
  qed
  then obtain s' where s': "fold_e body is s1 = Inr s'" "length s' = n" "P s'"
      and s'v: "\<forall>j<n. s' ! j = (if j \<in> (\<Union>i\<in>set is. K i) then G j (s1 ! j) else s1 ! j)"
    by auto
  have d: "\<And>i' j. i' \<in> set is \<Longrightarrow> j \<in> K i' \<Longrightarrow> j \<notin> K i"
    using Cons.prems(2) [of i] Cons.prems(3) by fastforce
  have "\<forall>j<n. s' ! j = (if j \<in> (\<Union>i\<in>set (i # is). K i) then G j (s ! j) else s ! j)"
  proof (intro allI impI)
    fix j assume j: "j < n"
    show "s' ! j = (if j \<in> (\<Union>i\<in>set (i # is). K i) then G j (s ! j) else s ! j)"
    proof (cases "j \<in> (\<Union>i\<in>set is. K i)")
      case True
      then have "j \<notin> K i" using d by auto
      then show ?thesis using True s'v s1v j by simp
    next
      case False
      then show ?thesis using s'v s1v j by simp
    qed
  qed
  then show ?case using s1(1) s' by simp
qed

lemma cell_index:
  assumes "0 \<le> x" "x < stride" "0 \<le> y"
  shows "int (nat (y * stride + x)) mod stride = x" "int (nat (y * stride + x)) div stride = y"
proof -
  have nn: "0 \<le> y * stride + x" using assms by simp
  show "int (nat (y * stride + x)) mod stride = x"
    using assms nn by (simp add: mod_pos_pos_trivial)
  show "int (nat (y * stride + x)) div stride = y"
    using assms nn by (simp add: div_pos_pos_trivial)
qed

lemma cell_bound:
  assumes "0 \<le> x" "x < stride" "0 \<le> y" "y < y1" "y1 * stride \<le> int n"
  shows "nat (y * stride + x) < n"
proof -
  have "y * stride + x < (y + 1) * stride" using assms by (simp add: algebra_simps)
  also have "\<dots> \<le> y1 * stride" using assms by (intro mult_right_mono) auto
  finally have lt: "y * stride + x < int n" using assms by linarith
  have "0 \<le> y * stride" using assms by simp
  then have nn: "0 \<le> y * stride + x" using assms by linarith
  show ?thesis using lt nn by linarith
qed

lemma paint_2d:
  fixes rowbody :: "int \<Rightarrow> 'c list \<Rightarrow> error + 'c list"
    and cell :: "int \<Rightarrow> int \<Rightarrow> 'c list \<Rightarrow> error + 'c list"
  assumes ys: "distinct ys" "set ys = {y0 ..< y1}"
      and xs: "distinct xs" "set xs = {x0 ..< x1}"
      and geom: "0 \<le> x0" "x1 \<le> stride" "0 \<le> y0" "y1 * stride \<le> int (length s)"
      and row: "\<And>y t. y0 \<le> y \<Longrightarrow> y < y1 \<Longrightarrow> length t = length s \<Longrightarrow>
                  rowbody y t = fold_e (cell y) xs t"
      and cell: "\<And>x y t. x0 \<le> x \<Longrightarrow> x < x1 \<Longrightarrow> y0 \<le> y \<Longrightarrow> y < y1 \<Longrightarrow> length t = length s \<Longrightarrow>
                  cell y x t = Inr (t[nat (y * stride + x) := f x y (t ! nat (y * stride + x))])"
  shows "fold_e rowbody ys s = Inr (paint stride (Rect_of x0 y0 x1 y1) f s)"
proof -
  define n where "n = length s"
  define G where "G = (\<lambda>j old. f (int j mod stride) (int j div stride) old)"
  define Kc where "Kc = (\<lambda>y x. {nat (y * stride + x)})"
  define Kr where "Kr = (\<lambda>y. (\<lambda>x. nat (y * stride + x)) ` {x0 ..< x1})"
  have inx: "\<And>x. x0 \<le> x \<Longrightarrow> x < x1 \<Longrightarrow> 0 \<le> x \<and> x < stride"
    using geom by auto
  have iny: "\<And>y. y0 \<le> y \<Longrightarrow> 0 \<le> y" using geom by auto
  have rowstep: "\<exists>t'. rowbody y t = Inr t' \<and> length t' = n \<and> True \<and>
                  (\<forall>j<n. t' ! j = (if j \<in> Kr y then G j (t ! j) else t ! j))"
    if y: "y \<in> set ys" and t: "length t = n" for y and t :: "'c list"
  proof -
    have yb: "y0 \<le> y" "y < y1" using y ys by auto
    have "\<exists>t'. fold_e (cell y) xs t = Inr t' \<and> length t' = n \<and> True \<and>
              (\<forall>j<n. t' ! j = (if j \<in> (\<Union>x\<in>set xs. Kc y x) then G j (t ! j) else t ! j))"
    proof (rule fold_e_blocks [where P = "\<lambda>_. True"])
      fix x and u :: "'c list" assume x: "x \<in> set xs" and u: "length u = n"
      have xb: "x0 \<le> x" "x < x1" using x xs by auto
      let ?k = "nat (y * stride + x)"
      have k: "?k < n"
        using cell_bound [of x stride y y1 n] inx [OF xb] iny [OF yb(1)] yb geom n_def by simp
      have c: "cell y x u = Inr (u[?k := f x y (u ! ?k)])"
        using cell [OF xb yb] u n_def by simp
      have g: "G ?k (u ! ?k) = f x y (u ! ?k)"
        using cell_index [of x stride y] inx [OF xb] iny [OF yb(1)] by (simp add: G_def)
      show "\<exists>s'. cell y x u = Inr s' \<and> length s' = n \<and> True \<and>
                 (\<forall>j<n. s' ! j = (if j \<in> Kc y x then G j (u ! j) else u ! j))"
        using c u k g by (auto simp add: Kc_def nth_list_update)
    next
      fix x x' assume "x \<in> set xs" "x' \<in> set xs" "x \<noteq> x'"
      then have "0 \<le> x" "0 \<le> x'" "x \<noteq> x'" using xs inx by auto
      moreover have "0 \<le> y * stride" using iny [OF yb(1)] inx xs \<open>x \<in> set xs\<close> by fastforce
      ultimately have "nat (y * stride + x) \<noteq> nat (y * stride + x')" by linarith
      then show "Kc y x \<inter> Kc y x' = {}" by (simp add: Kc_def)
    next
      show "distinct xs" by (rule xs(1))
      show "length t = n" by (rule t)
      show True by simp
    qed
    moreover have "(\<Union>x\<in>set xs. Kc y x) = Kr y" using xs by (auto simp add: Kc_def Kr_def)
    moreover have "rowbody y t = fold_e (cell y) xs t" using row [OF yb] t n_def by simp
    ultimately show ?thesis by simp
  qed
  have "\<exists>s'. fold_e rowbody ys s = Inr s' \<and> length s' = n \<and> True \<and>
            (\<forall>j<n. s' ! j = (if j \<in> (\<Union>y\<in>set ys. Kr y) then G j (s ! j) else s ! j))"
  proof (rule fold_e_blocks [where P = "\<lambda>_. True"])
    fix y and t :: "'c list" assume "y \<in> set ys" "length t = n"
    then show "\<exists>s'. rowbody y t = Inr s' \<and> length s' = n \<and> True \<and>
                 (\<forall>j<n. s' ! j = (if j \<in> Kr y then G j (t ! j) else t ! j))"
      by (rule rowstep)
  next
    fix y y' assume yy: "y \<in> set ys" "y' \<in> set ys" "y \<noteq> y'"
    show "Kr y \<inter> Kr y' = {}"
    proof (rule ccontr)
      assume "Kr y \<inter> Kr y' \<noteq> {}"
      then obtain x x' where xb: "x0 \<le> x" "x < x1" "x0 \<le> x'" "x' < x1"
          and e: "nat (y * stride + x) = nat (y' * stride + x')"
        by (auto simp add: Kr_def)
      have y: "0 \<le> y" "0 \<le> y'" using yy ys iny by auto
      have "int (nat (y * stride + x)) div stride = y"
        using cell_index(2) [of x stride y] inx [OF xb(1,2)] y by simp
      moreover have "int (nat (y' * stride + x')) div stride = y'"
        using cell_index(2) [of x' stride y'] inx [OF xb(3,4)] y by simp
      ultimately show False using e yy(3) by simp
    qed
  next
    show "distinct ys" by (rule ys(1))
    show "length s = n" by (simp add: n_def)
    show True by simp
  qed
  then obtain s' where s': "fold_e rowbody ys s = Inr s'" "length s' = n"
      and v: "\<forall>j<n. s' ! j = (if j \<in> (\<Union>y\<in>set ys. Kr y) then G j (s ! j) else s ! j)"
    by auto
  have mem: "j \<in> (\<Union>y\<in>set ys. Kr y) \<longleftrightarrow>
             Contains (Rect_of x0 y0 x1 y1) (Pt (int j mod stride) (int j div stride))" for j
  proof
    assume "j \<in> (\<Union>y\<in>set ys. Kr y)"
    then obtain x y where b: "x0 \<le> x" "x < x1" "y0 \<le> y" "y < y1" and j: "j = nat (y * stride + x)"
      using ys by (auto simp add: Kr_def)
    have "int j mod stride = x" "int j div stride = y"
      using cell_index [of x stride y] inx [OF b(1,2)] iny [OF b(3)] j by auto
    then show "Contains (Rect_of x0 y0 x1 y1) (Pt (int j mod stride) (int j div stride))"
      using b by (simp add: Contains_def Rect_of_def Pt_def)
  next
    assume "Contains (Rect_of x0 y0 x1 y1) (Pt (int j mod stride) (int j div stride))"
    then have b: "x0 \<le> int j mod stride" "int j mod stride < x1"
                 "y0 \<le> int j div stride" "int j div stride < y1"
      by (simp_all add: Contains_def Rect_of_def Pt_def)
    have "j = nat (int j div stride * stride + int j mod stride)" by simp
    then have "j \<in> Kr (int j div stride)" using b(1,2) unfolding Kr_def by (intro image_eqI) auto
    then show "j \<in> (\<Union>y\<in>set ys. Kr y)" using b(3,4) ys by auto
  qed
  have "s' = paint stride (Rect_of x0 y0 x1 y1) f s"
  proof (rule nth_equalityI)
    show "length s' = length (paint stride (Rect_of x0 y0 x1 y1) f s)"
      using s'(2) by (simp add: paint_def n_def)
  next
    fix j assume "j < length s'"
    then have j: "j < n" using s'(2) by simp
    then have "j < length s" by (simp add: n_def)
    then show "s' ! j = paint stride (Rect_of x0 y0 x1 y1) f s ! j"
      using v j mem [of j] by (simp add: paint_def G_def Let_def)
  qed
  then show ?thesis using s'(1) by simp
qed

section \<open>The chroma-subsampled decode\<close>

lemma Rect_of_eta [simp]:
  "Rect_of (X (Min_r r)) (Y (Min_r r)) (X (Max_r r)) (Y (Max_r r)) = r"
  by (simp add: Rect_of_def Pt_def)

lemma upto_set: "set [a .. b - 1] = {a ..< b}" by auto

lemma quo2: "0 \<le> a \<Longrightarrow> quo a 2 = a div 2"
  by (cases "a = 0") (simp_all add: quo_def)

lemma idx_Inr: "0 \<le> i \<Longrightarrow> i < int (length xs) \<Longrightarrow> idx xs i = Inr (xs ! nat i)"
  by (simp add: idx_def)

lemma row_bound:
  assumes "0 \<le> y" "y < y1" "0 \<le> stride" "y1 * stride \<le> n"
  shows "0 \<le> y * stride" "(y + 1) * stride \<le> (n::int)" "y * stride \<le> (y + 1) * stride"
proof -
  show "0 \<le> y * stride" using assms by simp
  have "(y + 1) * stride \<le> y1 * stride" using assms by (intro mult_right_mono) auto
  then show "(y + 1) * stride \<le> n" using assms by simp
  show "y * stride \<le> (y + 1) * stride" using assms by (simp add: algebra_simps)
qed

lemma wf_YCbCr_bounds:
  assumes wf: "wf_YCbCr p" and c: "Contains (Rect_y p) (Pt sx sy)"
  shows "0 \<le> sy * YStride p + sx" "sy * YStride p + sx < int (length (Y_plane p))"
        "0 \<le> chroma_index p sx sy"
        "chroma_index p sx sy < int (length (Cb_plane p))"
        "chroma_index p sx sy < int (length (Cr_plane p))"
proof -
  let ?x1 = "X (Max_r (Rect_y p))" and ?y1 = "Y (Max_r (Rect_y p))"
  have b: "0 \<le> sx" "sx < ?x1" "0 \<le> sy" "sy < ?y1"
    using wf c by (auto simp add: wf_YCbCr_def Contains_def Pt_def Let_def)
  have ys: "?x1 \<le> YStride p" "?y1 * YStride p \<le> int (length (Y_plane p))"
    using wf by (auto simp add: wf_YCbCr_def Let_def)
  have lum: "nat (sy * YStride p + sx) < length (Y_plane p)"
    using cell_bound [of sx "YStride p" sy ?y1 "length (Y_plane p)"] b ys by simp
  have "0 \<le> sy * YStride p" using b ys by simp
  then show "0 \<le> sy * YStride p + sx" using b by simp
  then show "sy * YStride p + sx < int (length (Y_plane p))" using lum by linarith
  define cw where "cw = (if SubsampleRatio p = SubsampleRatio422 \<or> SubsampleRatio p = SubsampleRatio420
                then (?x1 + 1) div 2 else ?x1)"
  define ch where "ch = (if SubsampleRatio p = SubsampleRatio420 \<and> SubsampleRatio p \<noteq> SubsampleRatio422
                then (?y1 + 1) div 2 else ?y1)"
  define ci where "ci = (if SubsampleRatio p = SubsampleRatio422 \<or> SubsampleRatio p = SubsampleRatio420
                then sx div 2 else sx)"
  define cj where "cj = (if SubsampleRatio p = SubsampleRatio420 \<and> SubsampleRatio p \<noteq> SubsampleRatio422
                then sy div 2 else sy)"
  have cs: "cw \<le> CStride p" "ch * CStride p \<le> int (length (Cb_plane p))"
           "ch * CStride p \<le> int (length (Cr_plane p))"
    using wf by (auto simp add: wf_YCbCr_def Let_def cw_def ch_def)
  have cib: "0 \<le> ci" "ci < cw" using b by (auto simp add: ci_def cw_def)
  have cjb: "0 \<le> cj" "cj < ch" using b by (auto simp add: cj_def ch_def)
  have e: "chroma_index p sx sy = cj * CStride p + ci"
    using b by (auto simp add: chroma_index_def ci_def cj_def quo2)
  have c1: "nat (cj * CStride p + ci) < length (Cb_plane p)"
    using cell_bound [of ci "CStride p" cj ch "length (Cb_plane p)"] cib cjb cs by simp
  have c2: "nat (cj * CStride p + ci) < length (Cr_plane p)"
    using cell_bound [of ci "CStride p" cj ch "length (Cr_plane p)"] cib cjb cs by simp
  have "0 \<le> cj * CStride p" using cjb cib cs by simp
  then have nn: "0 \<le> cj * CStride p + ci" using cib by simp
  show "0 \<le> chroma_index p sx sy" using nn e by simp
  show "chroma_index p sx sy < int (length (Cb_plane p))" using c1 nn e by linarith
  show "chroma_index p sx sy < int (length (Cr_plane p))" using c2 nn e by linarith
qed

lemma drawYCbCr_paint:
  assumes wd: "wf_Pix dst" and ins: "inside r (Rect dst)"
      and ws: "wf_YCbCr src"
      and al: "inside (Add_r r (Sub_p sp (Min_r r))) (Rect_y src)"
  shows "drawYCbCr conv dst r src sp =
         Inr (dst\<lparr>Pix := paint (Stride dst) r
                (\<lambda>x y old. YCbCr_pixel conv src (X sp + (x - X (Min_r r))) (Y sp + (y - Y (Min_r r))))
                (Pix dst)\<rparr>)"
proof -
  let ?x0 = "X (Min_r r)" and ?x1 = "X (Max_r r)" and ?y0 = "Y (Min_r r)" and ?y1 = "Y (Max_r r)"
  let ?st = "Stride dst"
  let ?n = "length (Pix dst)"
  have g: "0 \<le> ?x0" "?x0 < ?x1" "?x1 \<le> ?st" "0 \<le> ?y0" "?y0 < ?y1" "?y1 * ?st \<le> int ?n" "0 \<le> ?st"
    using wd ins unfolding wf_Pix_def inside_def
    by (auto intro: order_trans [OF mult_right_mono])
  define cell where "cell = (\<lambda>y x (pix :: rgba8 list).
      bind_e (idx (Y_plane src) ((Y sp + (y - ?y0)) * YStride src + (X sp + (x - ?x0))))
        (\<lambda>yy. bind_e (idx (Cb_plane src) (chroma_index src (X sp + (x - ?x0)) (Y sp + (y - ?y0))))
        (\<lambda>cb. bind_e (idx (Cr_plane src) (chroma_index src (X sp + (x - ?x0)) (Y sp + (y - ?y0))))
        (\<lambda>cr. case conv yy cb cr of (rr, gg, bb) \<Rightarrow>
                 upd_s pix (y * ?st) ((y + 1) * ?st) x (rr, gg, bb, 255)))))"
  define rowbody where "rowbody = (\<lambda>y (pix :: rgba8 list).
      if \<not> slice_ok pix (y * ?st) ((y + 1) * ?st) then Inl IndexOutOfRange
      else for_loop ?x0 ?x1 1 (cell y) pix)"
  have d: "drawYCbCr conv dst r src sp = with_Pix dst (for_loop ?y0 ?y1 1 rowbody (Pix dst))"
    unfolding drawYCbCr_def rowbody_def cell_def Let_def by (rule refl)
  have "fold_e rowbody [?y0 .. ?y1 - 1] (Pix dst) =
        Inr (paint ?st (Rect_of ?x0 ?y0 ?x1 ?y1)
              (\<lambda>x y old. YCbCr_pixel conv src (X sp + (x - ?x0)) (Y sp + (y - ?y0))) (Pix dst))"
  proof (rule paint_2d [where cell = cell and xs = "[?x0 .. ?x1 - 1]"])
    show "distinct [?y0 .. ?y1 - 1]" "set [?y0 .. ?y1 - 1] = {?y0 ..< ?y1}"
         "distinct [?x0 .. ?x1 - 1]" "set [?x0 .. ?x1 - 1] = {?x0 ..< ?x1}"
      by auto
    show "0 \<le> ?x0" "?x1 \<le> ?st" "0 \<le> ?y0" "?y1 * ?st \<le> int ?n" using g by auto
  next
    fix y and t :: "rgba8 list"
    assume y: "?y0 \<le> y" "y < ?y1" and t: "length t = ?n"
    have "slice_ok t (y * ?st) ((y + 1) * ?st)"
      using row_bound [of y ?y1 ?st "int ?n"] y g t by (simp add: slice_ok_def)
    then show "rowbody y t = fold_e (cell y) [?x0 .. ?x1 - 1] t"
      using g by (simp add: rowbody_def for_loop_up)
  next
    fix x y and t :: "rgba8 list"
    assume x: "?x0 \<le> x" "x < ?x1" and y: "?y0 \<le> y" "y < ?y1" and t: "length t = ?n"
    have c: "Contains (Rect_y src) (Pt (X sp + (x - ?x0)) (Y sp + (y - ?y0)))"
      using al x y by (auto simp add: inside_def Contains_def Add_r_def Sub_p_def Rect_of_def Pt_def)
    note b = wf_YCbCr_bounds [OF ws c]
    have u: "upd_s t (y * ?st) ((y + 1) * ?st) x v = Inr (t[nat (y * ?st + x) := v])" for v
      using x g by (simp add: upd_s_def algebra_simps)
    show "cell y x t = Inr (t[nat (y * ?st + x) :=
            YCbCr_pixel conv src (X sp + (x - ?x0)) (Y sp + (y - ?y0))])"
      using b u by (simp add: cell_def idx_Inr bind_e_def YCbCr_pixel_def split: prod.splits)
  qed
  then show ?thesis
    using g by (simp add: d for_loop_up with_Pix_def)
qed

lemma paint_length [simp]: "length (paint stride r f s) = length s"
  by (simp add: paint_def)

lemma paint_nth:
  "j < length s \<Longrightarrow> paint stride r f s ! j =
     (if Contains r (Pt (int j mod stride) (int j div stride))
      then f (int j mod stride) (int j div stride) (s ! j) else s ! j)"
  by (simp add: paint_def Let_def)

text \<open>
  Claim C10. For a source whose \<open>SubsampleRatio\<close> is neither 4:2:2 nor 4:2:0,
  \<open>drawYCbCr\<close> reads the two chroma samples at the index of the luma sample's
  coordinates (\<open>sy * CStride + sx\<close>), exactly as for a 4:4:4 source, and every pixel it
  writes has alpha 255. The buffers agree with their bounds and the rectangle is the
  clipped one.
\<close>

theorem drawYCbCr_default_444:
  assumes ratio: "SubsampleRatio src \<noteq> SubsampleRatio422" "SubsampleRatio src \<noteq> SubsampleRatio420"
      and wd: "wf_Pix dst" and ins: "inside r (Rect dst)"
      and ws: "wf_YCbCr src"
      and al: "inside (Add_r r (Sub_p sp (Min_r r))) (Rect_y src)"
  shows "drawYCbCr conv dst r src sp =
           Inr (dst\<lparr>Pix := paint (Stride dst) r
                  (\<lambda>x y old.
                     case conv
                       (Y_plane src ! nat ((Y sp + (y - Y (Min_r r))) * YStride src + (X sp + (x - X (Min_r r)))))
                       (Cb_plane src ! nat ((Y sp + (y - Y (Min_r r))) * CStride src + (X sp + (x - X (Min_r r)))))
                       (Cr_plane src ! nat ((Y sp + (y - Y (Min_r r))) * CStride src + (X sp + (x - X (Min_r r)))))
                     of (rr, gg, bb) \<Rightarrow> (rr, gg, bb, 255))
                  (Pix dst)\<rparr>)
         \<and> drawYCbCr conv dst r src sp =
           drawYCbCr conv dst r (src\<lparr>SubsampleRatio := SubsampleRatio444\<rparr>) sp
         \<and> (\<exists>d'. drawYCbCr conv dst r src sp = Inr d' \<and> length (Pix d') = length (Pix dst) \<and>
                (\<forall>j < length (Pix dst).
                   Pix d' ! j = Pix dst ! j \<or> snd (snd (snd (Pix d' ! j))) = 255))"
proof -
  have ci: "chroma_index src sx sy = sy * CStride src + sx" for sx sy
    using ratio by (simp add: chroma_index_def)
  have ci': "chroma_index (src\<lparr>SubsampleRatio := SubsampleRatio444\<rparr>) sx sy = sy * CStride src + sx"
    for sx sy
    by (simp add: chroma_index_def SubsampleRatio444_def SubsampleRatio422_def SubsampleRatio420_def)
  have p: "YCbCr_pixel conv src sx sy =
             (case conv (Y_plane src ! nat (sy * YStride src + sx))
                        (Cb_plane src ! nat (sy * CStride src + sx))
                        (Cr_plane src ! nat (sy * CStride src + sx))
              of (rr, gg, bb) \<Rightarrow> (rr, gg, bb, 255))" for sx sy
    by (simp add: YCbCr_pixel_def ci)
  have a: "snd (snd (snd (YCbCr_pixel conv src sx sy))) = 255" for sx sy
    by (simp add: YCbCr_pixel_def split: prod.splits)
  note main = drawYCbCr_paint [OF wd ins ws al, of conv]
  have one: "drawYCbCr conv dst r src sp =
           Inr (dst\<lparr>Pix := paint (Stride dst) r
                  (\<lambda>x y old.
                     case conv
                       (Y_plane src ! nat ((Y sp + (y - Y (Min_r r))) * YStride src + (X sp + (x - X (Min_r r)))))
                       (Cb_plane src ! nat ((Y sp + (y - Y (Min_r r))) * CStride src + (X sp + (x - X (Min_r r)))))
                       (Cr_plane src ! nat ((Y sp + (y - Y (Min_r r))) * CStride src + (X sp + (x - X (Min_r r)))))
                     of (rr, gg, bb) \<Rightarrow> (rr, gg, bb, 255))
                  (Pix dst)\<rparr>)"
    using main by (simp add: p)
  have two: "drawYCbCr conv dst r src sp =
           drawYCbCr conv dst r (src\<lparr>SubsampleRatio := SubsampleRatio444\<rparr>) sp"
    unfolding drawYCbCr_def Let_def ci ci' by (simp cong: if_cong)
  have three: "\<exists>d'. drawYCbCr conv dst r src sp = Inr d' \<and> length (Pix d') = length (Pix dst) \<and>
                (\<forall>j < length (Pix dst).
                   Pix d' ! j = Pix dst ! j \<or> snd (snd (snd (Pix d' ! j))) = 255)"
    using main by (simp add: paint_nth a)
  show ?thesis using one two three by blast
qed

lemma ex_wf:
  "wf_Pix ex_dst" "inside (Rect_of 0 0 2 1) (Rect ex_dst)" "wf_YCbCr (ex_ycc 7)"
  "inside (Add_r (Rect_of 0 0 2 1) (Sub_p (Pt 0 0) (Min_r (Rect_of 0 0 2 1)))) (Rect_y (ex_ycc 7))"
  by (simp_all add: wf_Pix_def inside_def wf_YCbCr_def ex_dst_def ex_ycc_def Rect_of_def Pt_def
        Add_r_def Sub_p_def SubsampleRatio422_def SubsampleRatio420_def)

theorem drawYCbCr_default_444_witness:
  "SubsampleRatio (ex_ycc 7) \<noteq> SubsampleRatio422 \<and> SubsampleRatio (ex_ycc 7) \<noteq> SubsampleRatio420
   \<and> wf_Pix ex_dst \<and> inside (Rect_of 0 0 2 1) (Rect ex_dst) \<and> wf_YCbCr (ex_ycc 7)
   \<and> inside (Add_r (Rect_of 0 0 2 1) (Sub_p (Pt 0 0) (Min_r (Rect_of 0 0 2 1)))) (Rect_y (ex_ycc 7))
   \<and> drawYCbCr ex_conv ex_dst (Rect_of 0 0 2 1) (ex_ycc 7) (Pt 0 0) =
       Inr (ex_dst\<lparr>Pix := [(10, 1, 3, 255), (20, 2, 4, 255)]\<rparr>)
   \<and> drawYCbCr ex_conv ex_dst (Rect_of 0 0 2 1) (ex_ycc 7) (Pt 0 0) =
       drawYCbCr ex_conv ex_dst (Rect_of 0 0 2 1) (ex_ycc SubsampleRatio444) (Pt 0 0)"
proof -
  have r: "SubsampleRatio (ex_ycc 7) \<noteq> SubsampleRatio422"
          "SubsampleRatio (ex_ycc 7) \<noteq> SubsampleRatio420"
    by (simp_all add: ex_ycc_def SubsampleRatio422_def SubsampleRatio420_def)
  have v: "drawYCbCr ex_conv ex_dst (Rect_of 0 0 2 1) (ex_ycc 7) (Pt 0 0) =
       Inr (ex_dst\<lparr>Pix := [(10, 1, 3, 255), (20, 2, 4, 255)]\<rparr>)"
    by code_simp
  have u: "(ex_ycc 7)\<lparr>SubsampleRatio := SubsampleRatio444\<rparr> = ex_ycc SubsampleRatio444"
    by (simp add: ex_ycc_def)
  show ?thesis
    using drawYCbCr_default_444 [OF r ex_wf, of ex_conv, THEN conjunct2, THEN conjunct1]
      r ex_wf v u by simp
qed

section \<open>One decode loop for both operators\<close>

text \<open>
  Claim C6. With an \<open>image.RGBA\<close> destination, a \<open>ycbcr.YCbCr\<close> source and no mask,
  \<open>DrawMask\<close> gives the same result for \<open>Over\<close> and for \<open>Src\<close>: after the clip both
  go to \<open>drawYCbCr\<close> with the same arguments.
\<close>

theorem YCbCr_Over_eq_Src:
  "DrawMask conv (DstRGBA dst0) r (Other (YCbCrImage src0)) sp None mp Over =
   DrawMask conv (DstRGBA dst0) r (Other (YCbCrImage src0)) sp None mp Src
   \<and> DrawMask conv (DstRGBA dst0) r (Other (YCbCrImage src0)) sp None mp op =
     (case clip (Rect dst0) r (Rect_y src0) sp None mp of
        (r', sp', mp') \<Rightarrow>
          if Empty_r r' then Inr (DstRGBA dst0)
          else map_sum id DstRGBA (drawYCbCr conv dst0 r' src0 sp'))"
  by (cases op) (simp_all add: DrawMask_def dispatch_RGBA_def deref_def split: prod.splits)

theorem YCbCr_Over_eq_Src_witness:
  "DrawMask ex_conv (DstRGBA ex_dst) (Rect_of 0 0 5 5) (Other (YCbCrImage (ex_ycc 0))) ZP None ZP Over =
   DrawMask ex_conv (DstRGBA ex_dst) (Rect_of 0 0 5 5) (Other (YCbCrImage (ex_ycc 0))) ZP None ZP Src
   \<and> DrawMask ex_conv (DstRGBA ex_dst) (Rect_of 0 0 5 5) (Other (YCbCrImage (ex_ycc 0))) ZP None ZP Src =
     Inr (DstRGBA (ex_dst\<lparr>Pix := [(10, 1, 3, 255), (20, 2, 4, 255)]\<rparr>))"
proof -
  have v: "DrawMask ex_conv (DstRGBA ex_dst) (Rect_of 0 0 5 5) (Other (YCbCrImage (ex_ycc 0))) ZP None ZP Src =
     Inr (DstRGBA (ex_dst\<lparr>Pix := [(10, 1, 3, 255), (20, 2, 4, 255)]\<rparr>))"
    by code_simp
  show ?thesis
    using YCbCr_Over_eq_Src [of ex_conv ex_dst "Rect_of 0 0 5 5" "ex_ycc 0" ZP ZP Src, THEN conjunct1] v
    by simp
qed

section \<open>Loops that read what they write\<close>

lemma fold_e_inplace:
  assumes step: "\<And>i s. i \<in> set is \<Longrightarrow> length s = n \<Longrightarrow>
             \<exists>s'. body i s = Inr s' \<and> length s' = n \<and>
                  (\<forall>j<n. s' ! j = (if j \<in> K i then G j (s ! j) (s ! src j) else s ! j))"
      and disj: "\<And>i i'. i \<in> set is \<Longrightarrow> i' \<in> set is \<Longrightarrow> i \<noteq> i' \<Longrightarrow> K i \<inter> K i' = {}"
      and dist: "distinct is"
      and srcn: "\<And>i j. i \<in> set is \<Longrightarrow> j \<in> K i \<Longrightarrow> j < n \<Longrightarrow> src j < n"
      and ord: "sorted_wrt (\<lambda>i i'. \<forall>j\<in>K i'. src j \<notin> K i) is"
      and len: "length s = n"
  shows "\<exists>s'. fold_e body is s = Inr s' \<and> length s' = n \<and>
              (\<forall>j<n. s' ! j = (if j \<in> (\<Union>i\<in>set is. K i) then G j (s ! j) (s ! src j) else s ! j))"
  using assms
proof (induction "is" arbitrary: s)
  case Nil
  then show ?case by simp
next
  case (Cons i "is")
  obtain s1 where s1: "body i s = Inr s1" "length s1 = n"
      and s1v: "\<forall>j<n. s1 ! j = (if j \<in> K i then G j (s ! j) (s ! src j) else s ! j)"
    using Cons.prems(1) [of i s] Cons.prems(6) by auto
  have "\<exists>s'. fold_e body is s1 = Inr s' \<and> length s' = n \<and>
              (\<forall>j<n. s' ! j = (if j \<in> (\<Union>i\<in>set is. K i) then G j (s1 ! j) (s1 ! src j) else s1 ! j))"
  proof (rule Cons.IH)
    show "\<And>i s. i \<in> set is \<Longrightarrow> length s = n \<Longrightarrow>
             \<exists>s'. body i s = Inr s' \<and> length s' = n \<and>
                  (\<forall>j<n. s' ! j = (if j \<in> K i then G j (s ! j) (s ! src j) else s ! j))"
      using Cons.prems(1) by simp
    show "\<And>i i'. i \<in> set is \<Longrightarrow> i' \<in> set is \<Longrightarrow> i \<noteq> i' \<Longrightarrow> K i \<inter> K i' = {}"
      using Cons.prems(2) by simp
    show "distinct is" using Cons.prems(3) by simp
    show "\<And>i' j. i' \<in> set is \<Longrightarrow> j \<in> K i' \<Longrightarrow> j < n \<Longrightarrow> src j < n"
      using Cons.prems(4) by (metis list.set_intros(2))
    show "sorted_wrt (\<lambda>i i'. \<forall>j\<in>K i'. src j \<notin> K i) is" using Cons.prems(5) by simp
    show "length s1 = n" by (rule s1(2))
  qed
  then obtain s' where s': "fold_e body is s1 = Inr s'" "length s' = n"
      and s'v: "\<forall>j<n. s' ! j = (if j \<in> (\<Union>i\<in>set is. K i) then G j (s1 ! j) (s1 ! src j) else s1 ! j)"
    by auto
  have d: "\<And>i' j. i' \<in> set is \<Longrightarrow> j \<in> K i' \<Longrightarrow> j \<notin> K i"
    using Cons.prems(2) [of i] Cons.prems(3) by fastforce
  have o: "\<And>i' j. i' \<in> set is \<Longrightarrow> j \<in> K i' \<Longrightarrow> src j \<notin> K i"
    using Cons.prems(5) by simp
  have "\<forall>j<n. s' ! j = (if j \<in> (\<Union>i\<in>set (i # is). K i) then G j (s ! j) (s ! src j) else s ! j)"
  proof (intro allI impI)
    fix j assume j: "j < n"
    show "s' ! j = (if j \<in> (\<Union>i\<in>set (i # is). K i) then G j (s ! j) (s ! src j) else s ! j)"
    proof (cases "j \<in> (\<Union>i\<in>set is. K i)")
      case True
      then obtain i' where i': "i' \<in> set is" "j \<in> K i'" by auto
      have a: "j \<notin> K i" using d i' by simp
      have b: "src j \<notin> K i" using o i' by simp
      have c: "src j < n" using Cons.prems(4) [of i' j] i' j by simp
      have "s1 ! j = s ! j" using s1v j a by simp
      moreover have "s1 ! src j = s ! src j" using s1v c b by simp
      ultimately show ?thesis using True s'v j by simp
    next
      case False
      then show ?thesis using s'v s1v j by simp
    qed
  qed
  then show ?case using s1(1) s' by simp
qed

lemma inplace_2d:
  fixes rowbody :: "int \<Rightarrow> 'c list \<Rightarrow> error + 'c list"
    and cell :: "int \<Rightarrow> int \<Rightarrow> 'c list \<Rightarrow> error + 'c list"
  assumes ys: "distinct ys" "set ys = {y0 ..< y1}"
      and xs: "distinct xs" "set xs = {x0 ..< x1}"
      and geom: "0 \<le> x0" "x1 \<le> stride" "0 \<le> y0" "y1 * stride \<le> int (length s)"
      and srcg: "\<And>x y. x0 \<le> x \<Longrightarrow> x < x1 \<Longrightarrow> y0 \<le> y \<Longrightarrow> y < y1 \<Longrightarrow>
                   0 \<le> x + dx \<and> x + dx < stride \<and> 0 \<le> y + dy \<and> y + dy < h"
      and srch: "h * stride \<le> int (length s)"
      and ordx: "dy \<noteq> 0 \<or> sorted_wrt (\<lambda>x x'. x' + dx \<noteq> x) xs"
      and ordy: "sorted_wrt (\<lambda>y y'. y' + dy \<noteq> y) ys \<or>
                 (\<forall>x\<in>{x0 ..< x1}. \<forall>x'\<in>{x0 ..< x1}. x' + dx \<noteq> x)"
      and row: "\<And>y t. y0 \<le> y \<Longrightarrow> y < y1 \<Longrightarrow> length t = length s \<Longrightarrow>
                  rowbody y t = fold_e (cell y) xs t"
      and cell: "\<And>x y t. x0 \<le> x \<Longrightarrow> x < x1 \<Longrightarrow> y0 \<le> y \<Longrightarrow> y < y1 \<Longrightarrow> length t = length s \<Longrightarrow>
                  cell y x t = Inr (t[nat (y * stride + x) :=
                     f x y (t ! nat (y * stride + x)) (t ! nat ((y + dy) * stride + (x + dx)))])"
  shows "fold_e rowbody ys s =
         Inr (paint stride (Rect_of x0 y0 x1 y1)
               (\<lambda>x y old. f x y old (s ! nat ((y + dy) * stride + (x + dx)))) s)"
proof -
  define n where "n = length s"
  define src where "src = (\<lambda>j. nat ((int j div stride + dy) * stride + (int j mod stride + dx)))"
  define G where "G = (\<lambda>j old sv. f (int j mod stride) (int j div stride) old sv)"
  define Kc where "Kc = (\<lambda>y x. {nat (y * stride + x)})"
  define Kr where "Kr = (\<lambda>y. (\<lambda>x. nat (y * stride + x)) ` {x0 ..< x1})"
  have inx: "\<And>x. x0 \<le> x \<Longrightarrow> x < x1 \<Longrightarrow> 0 \<le> x \<and> x < stride"
    using geom by auto
  have iny: "\<And>y. y0 \<le> y \<Longrightarrow> 0 \<le> y" using geom by auto
  have ci: "int (nat (y * stride + x)) mod stride = x \<and> int (nat (y * stride + x)) div stride = y"
    if "x0 \<le> x" "x < x1" "y0 \<le> y" for x y
    using cell_index [of x stride y] inx [OF that(1,2)] iny [OF that(3)] by simp
  have srck: "src (nat (y * stride + x)) = nat ((y + dy) * stride + (x + dx))"
    if "x0 \<le> x" "x < x1" "y0 \<le> y" for x y
    using ci [OF that] by (simp add: src_def)
  have srcidx: "int (src (nat (y * stride + x))) mod stride = x + dx \<and>
                int (src (nat (y * stride + x))) div stride = y + dy"
    if "x0 \<le> x" "x < x1" "y0 \<le> y" "y < y1" for x y
    using srck [OF that(1,2,3)] srcg [OF that] cell_index [of "x + dx" stride "y + dy"] by simp
  have srclt: "src (nat (y * stride + x)) < n"
    if "x0 \<le> x" "x < x1" "y0 \<le> y" "y < y1" for x y
    using srck [OF that(1,2,3)] srcg [OF that] srch
      cell_bound [of "x + dx" stride "y + dy" h n] by (simp add: n_def)
  have rowstep: "\<exists>t'. rowbody y t = Inr t' \<and> length t' = n \<and>
                  (\<forall>j<n. t' ! j = (if j \<in> Kr y then G j (t ! j) (t ! src j) else t ! j))"
    if y: "y \<in> set ys" and t: "length t = n" for y and t :: "'c list"
  proof -
    have yb: "y0 \<le> y" "y < y1" using y ys by auto
    have "\<exists>t'. fold_e (cell y) xs t = Inr t' \<and> length t' = n \<and>
              (\<forall>j<n. t' ! j = (if j \<in> (\<Union>x\<in>set xs. Kc y x) then G j (t ! j) (t ! src j) else t ! j))"
    proof (rule fold_e_inplace)
      fix x and u :: "'c list" assume x: "x \<in> set xs" and u: "length u = n"
      have xb: "x0 \<le> x" "x < x1" using x xs by auto
      let ?k = "nat (y * stride + x)"
      have k: "?k < n"
        using cell_bound [of x stride y y1 n] inx [OF xb] iny [OF yb(1)] yb geom n_def by simp
      have c: "cell y x u = Inr (u[?k := f x y (u ! ?k) (u ! nat ((y + dy) * stride + (x + dx)))])"
        using cell [OF xb yb] u n_def by simp
      have g: "G ?k (u ! ?k) (u ! src ?k) = f x y (u ! ?k) (u ! nat ((y + dy) * stride + (x + dx)))"
        using ci [OF xb yb(1)] srck [OF xb yb(1)] by (simp add: G_def)
      show "\<exists>s'. cell y x u = Inr s' \<and> length s' = n \<and>
                 (\<forall>j<n. s' ! j = (if j \<in> Kc y x then G j (u ! j) (u ! src j) else u ! j))"
        using c u k g by (auto simp add: Kc_def nth_list_update)
    next
      fix x x' assume "x \<in> set xs" "x' \<in> set xs" "x \<noteq> x'"
      then have "0 \<le> x" "0 \<le> x'" "x \<noteq> x'" using xs inx by auto
      moreover have "0 \<le> y * stride" using iny [OF yb(1)] inx xs \<open>x \<in> set xs\<close> by fastforce
      ultimately have "nat (y * stride + x) \<noteq> nat (y * stride + x')" by linarith
      then show "Kc y x \<inter> Kc y x' = {}" by (simp add: Kc_def)
    next
      show "distinct xs" by (rule xs(1))
      show "length t = n" by (rule t)
    next
      fix x j assume "x \<in> set xs" "j \<in> Kc y x" "j < n"
      then show "src j < n" using srclt [of x y] xs yb by (auto simp add: Kc_def)
    next
      have "sorted_wrt (\<lambda>x x'. src (nat (y * stride + x')) \<noteq> nat (y * stride + x)) xs"
      proof (rule sorted_wrt_mono_rel [where P = "\<lambda>x x'. dy \<noteq> 0 \<or> x' + dx \<noteq> x"])
        fix x x' assume m: "x \<in> set xs" "x' \<in> set xs" and r: "dy \<noteq> 0 \<or> x' + dx \<noteq> x"
        have xb: "x0 \<le> x" "x < x1" "x0 \<le> x'" "x' < x1" using m xs by auto
        show "src (nat (y * stride + x')) \<noteq> nat (y * stride + x)"
        proof
          assume e: "src (nat (y * stride + x')) = nat (y * stride + x)"
          have "x' + dx = x \<and> y + dy = y"
            using srcidx [OF xb(3,4) yb] ci [OF xb(1,2) yb(1)] e by simp
          then show False using r by simp
        qed
      next
        show "sorted_wrt (\<lambda>x x'. dy \<noteq> 0 \<or> x' + dx \<noteq> x) xs"
        proof (cases "dy = 0")
          case True
          then show ?thesis using ordx by simp
        next
          case False
          then show ?thesis by (simp add: sorted_wrt_true)
        qed
      qed
      then show "sorted_wrt (\<lambda>x x'. \<forall>j\<in>Kc y x'. src j \<notin> Kc y x) xs"
        by (simp add: Kc_def)
    qed
    moreover have "(\<Union>x\<in>set xs. Kc y x) = Kr y" using xs by (auto simp add: Kc_def Kr_def)
    moreover have "rowbody y t = fold_e (cell y) xs t" using row [OF yb] t n_def by simp
    ultimately show ?thesis by simp
  qed
  have "\<exists>s'. fold_e rowbody ys s = Inr s' \<and> length s' = n \<and>
            (\<forall>j<n. s' ! j = (if j \<in> (\<Union>y\<in>set ys. Kr y) then G j (s ! j) (s ! src j) else s ! j))"
  proof (rule fold_e_inplace)
    fix y and t :: "'c list" assume "y \<in> set ys" "length t = n"
    then show "\<exists>s'. rowbody y t = Inr s' \<and> length s' = n \<and>
                 (\<forall>j<n. s' ! j = (if j \<in> Kr y then G j (t ! j) (t ! src j) else t ! j))"
      by (rule rowstep)
  next
    fix y y' assume yy: "y \<in> set ys" "y' \<in> set ys" "y \<noteq> y'"
    show "Kr y \<inter> Kr y' = {}"
    proof (rule ccontr)
      assume "Kr y \<inter> Kr y' \<noteq> {}"
      then obtain x x' where xb: "x0 \<le> x" "x < x1" "x0 \<le> x'" "x' < x1"
          and e: "nat (y * stride + x) = nat (y' * stride + x')"
        by (auto simp add: Kr_def)
      have y: "y0 \<le> y" "y0 \<le> y'" using yy ys by auto
      show False using ci [OF xb(1,2) y(1)] ci [OF xb(3,4) y(2)] e yy(3) by simp
    qed
  next
    show "distinct ys" by (rule ys(1))
    show "length s = n" by (simp add: n_def)
  next
    fix y j assume "y \<in> set ys" "j \<in> Kr y" "j < n"
    then show "src j < n" using srclt [of _ y] ys by (auto simp add: Kr_def)
  next
    have "sorted_wrt (\<lambda>y y'. \<forall>x\<in>{x0 ..< x1}. \<forall>x'\<in>{x0 ..< x1}.
            src (nat (y' * stride + x')) \<noteq> nat (y * stride + x)) ys"
    proof (rule sorted_wrt_mono_rel [where P = "\<lambda>y y'. y' + dy \<noteq> y \<or>
                 (\<forall>x\<in>{x0 ..< x1}. \<forall>x'\<in>{x0 ..< x1}. x' + dx \<noteq> x)"])
      fix y y' assume m: "y \<in> set ys" "y' \<in> set ys"
        and r: "y' + dy \<noteq> y \<or> (\<forall>x\<in>{x0 ..< x1}. \<forall>x'\<in>{x0 ..< x1}. x' + dx \<noteq> x)"
      have yb: "y0 \<le> y" "y < y1" "y0 \<le> y'" "y' < y1" using m ys by auto
      show "\<forall>x\<in>{x0 ..< x1}. \<forall>x'\<in>{x0 ..< x1}.
              src (nat (y' * stride + x')) \<noteq> nat (y * stride + x)"
      proof (intro ballI notI)
        fix x x' assume x: "x \<in> {x0 ..< x1}" "x' \<in> {x0 ..< x1}"
          and e: "src (nat (y' * stride + x')) = nat (y * stride + x)"
        have xb: "x0 \<le> x" "x < x1" "x0 \<le> x'" "x' < x1" using x by auto
        have "x' + dx = x \<and> y' + dy = y"
          using srcidx [OF xb(3,4) yb(3,4)] ci [OF xb(1,2) yb(1)] e by simp
        then show False using r x by auto
      qed
    next
      show "sorted_wrt (\<lambda>y y'. y' + dy \<noteq> y \<or>
                 (\<forall>x\<in>{x0 ..< x1}. \<forall>x'\<in>{x0 ..< x1}. x' + dx \<noteq> x)) ys"
      proof (cases "\<forall>x\<in>{x0 ..< x1}. \<forall>x'\<in>{x0 ..< x1}. x' + dx \<noteq> x")
        case True
        then show ?thesis by (simp add: sorted_wrt_true)
      next
        case False
        then have "sorted_wrt (\<lambda>y y'. y' + dy \<noteq> y) ys" using ordy by blast
        then show ?thesis by (rule sorted_wrt_mono_rel [rotated]) simp
      qed
    qed
    then show "sorted_wrt (\<lambda>y y'. \<forall>j\<in>Kr y'. src j \<notin> Kr y) ys"
      by (rule sorted_wrt_mono_rel [rotated]) (auto simp add: Kr_def)
  qed
  then obtain s' where s': "fold_e rowbody ys s = Inr s'" "length s' = n"
      and v: "\<forall>j<n. s' ! j = (if j \<in> (\<Union>y\<in>set ys. Kr y) then G j (s ! j) (s ! src j) else s ! j)"
    by auto
  have mem: "j \<in> (\<Union>y\<in>set ys. Kr y) \<longleftrightarrow>
             Contains (Rect_of x0 y0 x1 y1) (Pt (int j mod stride) (int j div stride))" for j
  proof
    assume "j \<in> (\<Union>y\<in>set ys. Kr y)"
    then obtain x y where b: "x0 \<le> x" "x < x1" "y0 \<le> y" "y < y1" and j: "j = nat (y * stride + x)"
      using ys by (auto simp add: Kr_def)
    have "int j mod stride = x" "int j div stride = y"
      using ci [OF b(1,2,3)] j by auto
    then show "Contains (Rect_of x0 y0 x1 y1) (Pt (int j mod stride) (int j div stride))"
      using b by (simp add: Contains_def Rect_of_def Pt_def)
  next
    assume "Contains (Rect_of x0 y0 x1 y1) (Pt (int j mod stride) (int j div stride))"
    then have b: "x0 \<le> int j mod stride" "int j mod stride < x1"
                 "y0 \<le> int j div stride" "int j div stride < y1"
      by (simp_all add: Contains_def Rect_of_def Pt_def)
    have "j = nat (int j div stride * stride + int j mod stride)" by simp
    then have "j \<in> Kr (int j div stride)" using b(1,2) unfolding Kr_def by (intro image_eqI) auto
    then show "j \<in> (\<Union>y\<in>set ys. Kr y)" using b(3,4) ys by auto
  qed
  have "s' = paint stride (Rect_of x0 y0 x1 y1)
               (\<lambda>x y old. f x y old (s ! nat ((y + dy) * stride + (x + dx)))) s"
  proof (rule nth_equalityI)
    show "length s' = length (paint stride (Rect_of x0 y0 x1 y1)
               (\<lambda>x y old. f x y old (s ! nat ((y + dy) * stride + (x + dx)))) s)"
      using s'(2) by (simp add: n_def)
  next
    fix j assume "j < length s'"
    then have j: "j < n" using s'(2) by simp
    then have "j < length s" by (simp add: n_def)
    then show "s' ! j = paint stride (Rect_of x0 y0 x1 y1)
               (\<lambda>x y old. f x y old (s ! nat ((y + dy) * stride + (x + dx)))) s ! j"
      using v j mem [of j] by (simp add: paint_nth G_def src_def)
  qed
  then show ?thesis using s'(1) by simp
qed

section \<open>Reading a well-formed image\<close>

lemma wf_Pix_index:
  assumes "wf_Pix p" "Contains (Rect p) (Pt x y)"
  shows "0 \<le> y * Stride p + x" "y * Stride p + x < int (length (Pix p))"
        "0 \<le> x" "x < Stride p" "0 \<le> y"
proof -
  have b: "0 \<le> x" "x < Stride p" "0 \<le> y" "y < Y (Max_r (Rect p))"
          "Y (Max_r (Rect p)) * Stride p \<le> int (length (Pix p))"
    using assms by (auto simp add: wf_Pix_def Contains_def Pt_def)
  show "0 \<le> x" "x < Stride p" "0 \<le> y" using b by auto
  have "0 \<le> y * Stride p" using b by simp
  then show nn: "0 \<le> y * Stride p + x" using b by simp
  show "y * Stride p + x < int (length (Pix p))"
    using cell_bound [of x "Stride p" y "Y (Max_r (Rect p))" "length (Pix p)"] b nn by linarith
qed

lemma pix_At_wf:
  "wf_Pix p \<Longrightarrow> pix_At p z x y =
     Inr (if Contains (Rect p) (Pt x y) then Pix p ! nat (y * Stride p + x) else z)"
  using wf_Pix_index(1,2) [of p x y] by (simp add: pix_At_def idx_def)

lemma At_wf: "wf_Image i \<Longrightarrow> At i x y = Inr (color_At i x y)"
proof (cases i)
  case (YCbCrImage p)
  assume "wf_Image i"
  then have w: "wf_YCbCr p" using YCbCrImage by (simp add: wf_Image_def)
  show ?thesis
  proof (cases "Contains (Rect_y p) (Pt x y)")
    case True
    note b = wf_YCbCr_bounds [OF w True]
    have e: "(if SubsampleRatio p = SubsampleRatio422 then y * CStride p + quo x 2
              else if SubsampleRatio p = SubsampleRatio420 then quo y 2 * CStride p + quo x 2
              else y * CStride p + x) = chroma_index p x y"
      by (simp add: chroma_index_def)
    have "\<exists>c. YCbCr_At p x y = Inr c"
      unfolding YCbCr_At_def Let_def e using True b by (simp add: idx_def bind_e_def)
    then show ?thesis using YCbCrImage by (auto simp add: color_At_def)
  next
    case False
    then show ?thesis using YCbCrImage by (simp add: color_At_def YCbCr_At_def)
  qed
qed (simp_all add: color_At_def wf_Image_def pix_At_wf)

lemma mask_alpha_wf:
  "(\<And>i. msk = Some i \<Longrightarrow> wf_Image i) \<Longrightarrow>
   mask_alpha conv msk mx my =
     Inr (case msk of None \<Rightarrow> m | Some i \<Rightarrow> snd (snd (snd (RGBA_of conv (color_At i mx my)))))"
  by (cases msk) (simp_all add: mask_alpha_def At_wf)

section \<open>Orders of traversal\<close>

lemma fold_e_sim:
  assumes "\<And>i t. i \<in> set is \<Longrightarrow> P t \<Longrightarrow> body i (emb t) = map_sum id emb (body' i t)"
      and "\<And>i t t'. i \<in> set is \<Longrightarrow> P t \<Longrightarrow> body' i t = Inr t' \<Longrightarrow> P t'"
      and "P s"
  shows "fold_e body is (emb s) = map_sum id emb (fold_e body' is s)"
  using assms
proof (induction "is" arbitrary: s)
  case Nil
  then show ?case by simp
next
  case (Cons i "is")
  show ?case
  proof (cases "body' i s")
    case (Inl e)
    then show ?thesis using Cons.prems(1) [of i s] Cons.prems(3) by simp
  next
    case (Inr t)
    have "P t" using Cons.prems(2) [of i s t] Cons.prems(3) Inr by simp
    have "fold_e body is (emb t) = map_sum id emb (fold_e body' is t)"
    proof (rule Cons.IH)
      show "\<And>i t. i \<in> set is \<Longrightarrow> P t \<Longrightarrow> body i (emb t) = map_sum id emb (body' i t)"
        using Cons.prems(1) by (metis list.set_intros(2))
      show "\<And>i t t'. i \<in> set is \<Longrightarrow> P t \<Longrightarrow> body' i t = Inr t' \<Longrightarrow> P t'"
        using Cons.prems(2) by (metis list.set_intros(2))
      show "P t" by (rule \<open>P t\<close>)
    qed
    then show ?thesis using Cons.prems(1) [of i s] Cons.prems(3) Inr by (simp add: id_def)
  qed
qed

lemma sweep_loop:
  "lo \<le> hi \<Longrightarrow>
   (case sweep bw lo hi of (a, b, d) \<Rightarrow> for_loop a b d body s) =
   fold_e body (if bw then rev [lo .. hi - 1] else [lo .. hi - 1]) s"
  using for_loop_down [of "lo - 1" "hi - 1" body s] for_loop_up [of lo hi body s]
  by (simp add: sweep_def)

lemma asc_ok: "0 \<le> d \<Longrightarrow> sorted_wrt (\<lambda>x x'. x' + d \<noteq> x) [a .. b]"
  by (rule sorted_wrt_mono_rel [OF _ sorted_wrt_upto]) simp

lemma desc_ok: "d \<le> 0 \<Longrightarrow> sorted_wrt (\<lambda>x x'. x' + d \<noteq> x) (rev [a .. b])"
  unfolding sorted_wrt_rev by (rule sorted_wrt_mono_rel [OF _ sorted_wrt_upto]) simp

lemma free_ok:
  "(\<forall>x\<in>set xs. \<forall>x'\<in>set xs. x' + d \<noteq> x) \<Longrightarrow> sorted_wrt (\<lambda>x x'. x' + (d::int) \<noteq> x) xs"
  by (rule sorted_wrt_mono_rel [where P = "\<lambda>_ _. True"]) (simp_all add: sorted_wrt_true)

lemma sweep_lists:
  "distinct (if bw then rev [lo .. hi - 1] else [lo .. hi - 1])"
  "set (if bw then rev [lo .. hi - 1] else [lo .. hi - 1]) = {lo ..< hi}"
  by auto

text \<open>The order chosen by \<open>backward\<close> never writes a pixel that is still to be read.\<close>

lemma backward_order:
  assumes ne: "X (Min_r r) < X (Max_r r)" "Y (Min_r r) < Y (Max_r r)"
      and bw: "bw = backward True r sp"
      and d: "dx = X sp - X (Min_r r)" "dy = Y sp - Y (Min_r r)"
  shows "dy \<noteq> 0 \<or> sorted_wrt (\<lambda>x x'. x' + dx \<noteq> x)
            (if bw then rev [X (Min_r r) .. X (Max_r r) - 1] else [X (Min_r r) .. X (Max_r r) - 1])"
    and "sorted_wrt (\<lambda>y y'. y' + dy \<noteq> y)
            (if bw then rev [Y (Min_r r) .. Y (Max_r r) - 1] else [Y (Min_r r) .. Y (Max_r r) - 1])
         \<or> (\<forall>x\<in>{X (Min_r r) ..< X (Max_r r)}. \<forall>x'\<in>{X (Min_r r) ..< X (Max_r r)}. x' + dx \<noteq> x)"
proof -
  let ?x0 = "X (Min_r r)" and ?x1 = "X (Max_r r)" and ?y0 = "Y (Min_r r)" and ?y1 = "Y (Max_r r)"
  have ov: "Overlaps r (Add_r r (Sub_p sp (Min_r r))) \<longleftrightarrow>
            ?x0 < ?x1 + dx \<and> ?x0 + dx < ?x1 \<and> ?y0 < ?y1 + dy \<and> ?y0 + dy < ?y1"
    using d by (simp add: Overlaps_def Add_r_def Sub_p_def Rect_of_def Pt_def)
  have lex: "(Y sp < ?y0 \<or> Y sp = ?y0 \<and> X sp < ?x0) \<longleftrightarrow> (dy < 0 \<or> dy = 0 \<and> dx < 0)"
    using d by auto
  consider (b) "bw" "dy < 0 \<or> dy = 0 \<and> dx < 0"
    | (f) "\<not> bw" "0 < dy \<or> dy = 0 \<and> 0 \<le> dx"
    | (xfree) "\<not> bw" "\<not> (?x0 < ?x1 + dx \<and> ?x0 + dx < ?x1)"
    | (yfree) "\<not> bw" "\<not> (?y0 < ?y1 + dy \<and> ?y0 + dy < ?y1)"
    using bw ov lex unfolding backward_def by fastforce
  then have "(dy \<noteq> 0 \<or> sorted_wrt (\<lambda>x x'. x' + dx \<noteq> x)
            (if bw then rev [?x0 .. ?x1 - 1] else [?x0 .. ?x1 - 1]))
     \<and> (sorted_wrt (\<lambda>y y'. y' + dy \<noteq> y)
            (if bw then rev [?y0 .. ?y1 - 1] else [?y0 .. ?y1 - 1])
         \<or> (\<forall>x\<in>{?x0 ..< ?x1}. \<forall>x'\<in>{?x0 ..< ?x1}. x' + dx \<noteq> x))"
  proof cases
    case b
    then show ?thesis using desc_ok [of dx] desc_ok [of dy] by auto
  next
    case f
    then show ?thesis using asc_ok [of dx] asc_ok [of dy] by auto
  next
    case xfree
    then have "\<forall>x\<in>{?x0 ..< ?x1}. \<forall>x'\<in>{?x0 ..< ?x1}. x' + dx \<noteq> x" by auto
    then show ?thesis using xfree(1) free_ok [of "[?x0 .. ?x1 - 1]" dx] by auto
  next
    case yfree
    then have a: "\<forall>y\<in>{?y0 ..< ?y1}. \<forall>y'\<in>{?y0 ..< ?y1}. y' + dy \<noteq> y" by auto
    moreover have "?y0 \<in> {?y0 ..< ?y1}" using ne by simp
    ultimately have "?y0 + dy \<noteq> ?y0" by blast
    then have "dy \<noteq> 0" by simp
    then show ?thesis using yfree(1) a free_ok [of "[?y0 .. ?y1 - 1]" dy] by auto
  qed
  then show "dy \<noteq> 0 \<or> sorted_wrt (\<lambda>x x'. x' + dx \<noteq> x)
            (if bw then rev [?x0 .. ?x1 - 1] else [?x0 .. ?x1 - 1])"
    and "sorted_wrt (\<lambda>y y'. y' + dy \<noteq> y)
            (if bw then rev [?y0 .. ?y1 - 1] else [?y0 .. ?y1 - 1])
         \<or> (\<forall>x\<in>{?x0 ..< ?x1}. \<forall>x'\<in>{?x0 ..< ?x1}. x' + dx \<noteq> x)"
    by blast+
qed

section \<open>The order in which the aliased loops visit the rectangle\<close>


lemma fold_e_cong:
  "(\<And>i s. i \<in> set is \<Longrightarrow> body i s = body' i s) \<Longrightarrow> fold_e body is s = fold_e body' is s"
  by (induction "is" arbitrary: s) (simp_all split: sum.splits)

lemma upto_as_map: "[a .. b - 1] = map (\<lambda>k. a + int k) [0 ..< nat (b - a)]"
proof (induction "nat (b - a)" arbitrary: b)
  case 0
  then show ?case by simp
next
  case (Suc n)
  then have lt: "a < b" and n: "n = nat ((b - 1) - a)" by linarith+
  have "[a .. b - 1] = [a .. (b - 1) - 1] @ [b - 1]" using lt by (simp add: upto_rec2)
  also have "[a .. (b - 1) - 1] = map (\<lambda>k. a + int k) [0 ..< nat ((b - 1) - a)]"
    using Suc.hyps(1) [of "b - 1"] n by simp
  also have "nat (b - a) = Suc (nat ((b - 1) - a))" using lt by linarith
  ultimately show ?case using lt by simp
qed




lemma upto_shift: "[a .. b - 1] = map (\<lambda>i. a + i) [0 .. b - a - 1]"
  using upto_as_map [of a b] upto_as_map [of 0 "b - a"] by (simp add: comp_def)








end
